theory Spec2Isabelle
  imports Complex_Main
begin

section \<open>Numbers, errors and the statistics helpers\<close>

text \<open>
  The two scripts measure round-trip times as Python floats (milliseconds), that is, as
  IEEE 754 doubles. A double is modelled by the real number it denotes, and every
  arithmetic step of the scripts that rounds is modelled by the exact result rounded to
  the nearest double, a tie going to the even mantissa (\<open>to_double\<close>). Comparisons,
  \<^verbatim>\<open>abs\<close>, \<^verbatim>\<open>max\<close> and \<^verbatim>\<open>min\<close> are exact on doubles. Infinities and NaN are not
  modelled: a round-trip time is a finite double, and no operation below leaves the finite
  range on such inputs.

  A failed probe (no \<^verbatim>\<open>time=\<close> field in the ping output) is \<open>None\<close>, a successful one is
  \<open>Some rtt\<close> with the double that \<^verbatim>\<open>float\<close> returned for the field. The exceptions that the
  arithmetic of the scripts could raise are values of \<open>py_error\<close>.
\<close>

datatype py_error = ZeroDivisionError | StatisticsError | ValueError

type_synonym 'a res = "py_error + 'a"

definition then_res :: "'a res \<Rightarrow> ('a \<Rightarrow> 'b res) \<Rightarrow> 'b res" where
  "then_res m f = (case m of Inl e \<Rightarrow> Inl e | Inr x \<Rightarrow> f x)"

definition round_half_even :: "real \<Rightarrow> int" where
  "round_half_even y =
     (let f = \<lfloor>y\<rfloor>; r = y - of_int f
      in if r < 1 / 2 then f else if 1 / 2 < r then f + 1
         else if even f then f else f + 1)"

definition pow2 :: "int \<Rightarrow> real" where
  "pow2 e = (if 0 \<le> e then 2 ^ nat e else 1 / 2 ^ nat (- e))"

text \<open>The exponent of the binade of \<open>a > 0\<close>, searched upwards from 0 or downwards from
  -1 and kept within the exponents -1022 .. 1023 of a double (below \<open>pow2 (- 1022)\<close> lie the
  subnormal numbers, which share the exponent -1022).\<close>

fun expo_up :: "nat \<Rightarrow> int \<Rightarrow> real \<Rightarrow> int" where
  "expo_up 0 e a = e"
| "expo_up (Suc n) e a = (if pow2 (e + 1) \<le> a then expo_up n (e + 1) a else e)"

fun expo_down :: "nat \<Rightarrow> int \<Rightarrow> real \<Rightarrow> int" where
  "expo_down 0 e a = e"
| "expo_down (Suc n) e a = (if a < pow2 e then expo_down n (e - 1) a else e)"

definition expo :: "real \<Rightarrow> int" where
  "expo a = (if 1 \<le> a then expo_up 1023 0 a else expo_down 1021 (- 1) a)"

definition to_double :: "real \<Rightarrow> real" where
  \<comment> \<open>the nearest double: 53 bits of mantissa, ties to even\<close>
  "to_double x =
     (if x = 0 then 0
      else let u = pow2 (expo \<bar>x\<bar> - 52) in of_int (round_half_even (x / u)) * u)"

definition fsub :: "real \<Rightarrow> real \<Rightarrow> real" where
  \<comment> \<open>\<^verbatim>\<open>a - b\<close> on floats\<close>
  "fsub a b = to_double (a - b)"

definition fmul :: "real \<Rightarrow> real \<Rightarrow> real" where
  \<comment> \<open>\<^verbatim>\<open>a * b\<close> on floats\<close>
  "fmul a b = to_double (a * b)"

definition SPIKE_THRESHOLD :: real where
  "SPIKE_THRESHOLD = 15"

definition INTERVAL :: real where
  \<comment> \<open>the literal \<^verbatim>\<open>0.2\<close>\<close>
  "INTERVAL = to_double (2 / 10)"

definition py_div :: "real \<Rightarrow> real \<Rightarrow> real res" where
  \<comment> \<open>\<^verbatim>\<open>a / b\<close>, the true division of two integers or floats\<close>
  "py_div a b = (if b = 0 then Inl ZeroDivisionError else Inr (to_double (a / b)))"

definition mean :: "real list \<Rightarrow> real res" where
  \<comment> \<open>\<^verbatim>\<open>statistics.mean\<close>: raises StatisticsError on an empty sequence; it adds the data
      exactly and rounds once, after the division\<close>
  "mean xs = (if xs = [] then Inl StatisticsError
              else Inr (to_double (sum_list xs / real (length xs))))"

definition py_max :: "real list \<Rightarrow> real res" where
  \<comment> \<open>\<^verbatim>\<open>max(xs)\<close>: raises ValueError on an empty sequence\<close>
  "py_max xs = (case xs of [] \<Rightarrow> Inl ValueError | x # r \<Rightarrow> Inr (fold max r x))"

definition py_min :: "real list \<Rightarrow> real res" where
  "py_min xs = (case xs of [] \<Rightarrow> Inl ValueError | x # r \<Rightarrow> Inr (fold min r x))"

definition py_round :: "nat \<Rightarrow> real \<Rightarrow> real" where
  \<comment> \<open>\<^verbatim>\<open>round(x, d)\<close>: the exact value of the double \<open>x\<close> rounded to \<open>d\<close> decimals, a tie
      going to the even neighbour, and the double nearest to that decimal\<close>
  "py_round d x = to_double (of_int (round_half_even (x * 10 ^ d)) / 10 ^ d)"

fun nat_str :: "nat \<Rightarrow> string" where
  "nat_str n =
     (if n < 10 then [''0123456789'' ! n]
      else nat_str (n div 10) @ [''0123456789'' ! (n mod 10)])"

declare nat_str.simps [simp del]

definition fmt_fixed :: "nat \<Rightarrow> real \<Rightarrow> string" where
  \<comment> \<open>\<^verbatim>\<open>f"{x:.df}"\<close>: sign, integer part, point, \<open>d\<close> decimals of the exact value of \<open>x\<close>\<close>
  "fmt_fixed d x =
     (let n = nat (round_half_even (\<bar>x\<bar> * 10 ^ d));
          frac = nat_str (n mod 10 ^ d)
      in (if x < 0 then ''-'' else []) @ nat_str (n div 10 ^ d) @
         (if d = 0 then [] else ''.'' @ replicate (d - length frac) (CHR ''0'') @ frac))"

section \<open>The continuous monitor (jitter-check.py)\<close>

datatype status = OK | HighJitter | LagSpike | PacketLoss

fun status_msg :: "status \<Rightarrow> string" where
  "status_msg OK = ''OK''"
| "status_msg HighJitter = ''HIGH JITTER''"
| "status_msg LagSpike = ''LAG SPIKE''"
| "status_msg PacketLoss = ''PACKET LOSS''"

record stats =
  sent :: nat
  received :: nat
  rtts :: "real list"
  jitter_values :: "real list"
  spikes :: nat
  high_jitter_events :: nat

text \<open>One printed line of the table: SEQ, RTT (or TIMEOUT), JITTER and STATUS. On a timeout
  the jitter column shows dashes; the variable \<^verbatim>\<open>current_jitter\<close> is 0.0 there.\<close>

record row =
  row_seq :: nat
  row_rtt :: "real option"
  row_jitter :: real
  row_status :: status

record monitor =
  mstats :: stats
  prev_rtt :: "real option"
  seq :: nat
  log_rows :: "row list"

definition monitor_init :: monitor where
  "monitor_init =
     \<lparr>mstats = \<lparr>sent = 0, received = 0, rtts = [], jitter_values = [],
                 spikes = 0, high_jitter_events = 0\<rparr>,
      prev_rtt = None, seq = 1, log_rows = []\<rparr>"

text \<open>The body of the \<^verbatim>\<open>while True\<close> loop of \<^verbatim>\<open>analyze_lan\<close>, for the probe outcome \<open>out\<close>.\<close>

definition analyze_step :: "real option \<Rightarrow> monitor \<Rightarrow> monitor" where
  "analyze_step out m =
     (let st = (mstats m)\<lparr>sent := sent (mstats m) + 1\<rparr> in
      case out of
        Some rtt \<Rightarrow>
          (let st1 = st\<lparr>received := received st + 1, rtts := rtts st @ [rtt]\<rparr>;
               current_jitter = (case prev_rtt m of Some p \<Rightarrow> \<bar>fsub rtt p\<bar> | None \<Rightarrow> 0);
               st2 = (case prev_rtt m of
                        Some p \<Rightarrow> st1\<lparr>jitter_values := jitter_values st1 @ [current_jitter]\<rparr>
                      | None \<Rightarrow> st1);
               status = (if rtt > SPIKE_THRESHOLD then LagSpike
                         else if current_jitter > 5 then HighJitter else OK);
               st3 = (if rtt > SPIKE_THRESHOLD then st2\<lparr>spikes := spikes st2 + 1\<rparr>
                      else if current_jitter > 5
                        then st2\<lparr>high_jitter_events := high_jitter_events st2 + 1\<rparr>
                      else st2)
           in \<lparr>mstats = st3, prev_rtt = Some rtt, seq = seq m + 1,
               log_rows = log_rows m @
                 [\<lparr>row_seq = seq m, row_rtt = Some rtt, row_jitter = current_jitter,
                   row_status = status\<rparr>]\<rparr>)
      | None \<Rightarrow>
          \<lparr>mstats = st, prev_rtt = None, seq = seq m + 1,
           log_rows = log_rows m @
             [\<lparr>row_seq = seq m, row_rtt = None, row_jitter = 0, row_status = PacketLoss\<rparr>]\<rparr>)"

text \<open>The loop runs until the user interrupts it. The process blocks in the ping
  subprocess and in \<^verbatim>\<open>time.sleep\<close>, so the interrupt is taken there: \<open>outs\<close> are the
  outcomes of the probes that were completed (and counted) before it.\<close>

definition analyze_loop :: "real option list \<Rightarrow> monitor" where
  "analyze_loop outs = fold analyze_step outs monitor_init"

record json_summary =
  js_target :: string
  duration_seconds :: real
  total_packets :: nat
  packet_loss_pct :: real
  js_avg_latency_ms :: real
  js_max_latency_ms :: real
  js_avg_jitter_ms :: real
  stability_score :: string
  diagnosis :: "string list"

text \<open>The \<^verbatim>\<open>except KeyboardInterrupt\<close> block: \<open>None\<close> is the early \<^verbatim>\<open>return\<close> that
  emits no JSON object.\<close>

definition summary :: "string \<Rightarrow> stats \<Rightarrow> json_summary option res" where
  "summary target st =
     (if sent st = 0 then Inr None
      else
        then_res (py_div (real (sent st) - real (received st)) (real (sent st))) (\<lambda>q.
        let loss_pct = fmul q 100 in
        then_res (if rtts st \<noteq> [] then mean (rtts st) else Inr 0) (\<lambda>avg_rtt.
        then_res (if rtts st \<noteq> [] then py_max (rtts st) else Inr 0) (\<lambda>max_rtt.
        then_res (if jitter_values st \<noteq> [] then mean (jitter_values st) else Inr 0)
          (\<lambda>avg_jitter.
        Inr (Some
          \<lparr>js_target = target,
           duration_seconds = fmul (real (sent st)) INTERVAL,
           total_packets = sent st,
           packet_loss_pct = py_round 2 loss_pct,
           js_avg_latency_ms = py_round 2 avg_rtt,
           js_max_latency_ms = py_round 2 max_rtt,
           js_avg_jitter_ms = py_round 2 avg_jitter,
           stability_score = (if loss_pct > 0 \<or> avg_jitter > 5 then ''POOR'' else ''GOOD''),
           diagnosis =
             (if loss_pct > 0
                then [''Packet Loss detected (Wi-Fi interference or hardware fault)'']
                else []) @
             (if avg_jitter > 4 then [''High Jitter (Mouse floatiness imminent)''] else []) @
             (if real (spikes st) > fmul (real (sent st)) (to_double (5 / 100))
                then [''Frequent Latency Spikes (Background process interruption)'']
                else [])\<rparr>))))))"

definition analyze_lan :: "string \<Rightarrow> real option list \<Rightarrow> row list \<times> json_summary option res" where
  "analyze_lan target outs =
     (let m = analyze_loop outs in (log_rows m, summary target (mstats m)))"

section \<open>The experiment orchestrator (network\_optimizer\_test.py)\<close>

subsection \<open>One batch of probes\<close>

definition PINGS_PER_TEST :: nat where
  "PINGS_PER_TEST = 200"

record TestResult =
  setting_name :: string
  setting_value :: string
  packets_sent :: nat
  packets_lost :: nat
  avg_latency_ms :: real
  max_latency_ms :: real
  min_latency_ms :: real
  avg_jitter_ms :: real
  spike_count :: nat
  spike_percentage :: real
  raw_rtts :: "real list"

text \<open>
  \<open>outs\<close> lists the replies that arrive, in order; probe \<open>i\<close> of the batch gets
  \<open>outs ! i\<close>, and a probe for which no reply is listed times out.
\<close>

definition reply :: "real option list \<Rightarrow> nat \<Rightarrow> real option" where
  "reply outs i = (if i < length outs then outs ! i else None)"

fun ping_loop :: "real option list \<Rightarrow> nat list \<Rightarrow> real list \<times> nat \<Rightarrow> real list \<times> nat" where
  "ping_loop outs [] acc = acc"
| "ping_loop outs (i # is) (rs, lost) =
     ping_loop outs is
       (case reply outs i of Some r \<Rightarrow> (rs @ [r], lost) | None \<Rightarrow> (rs, lost + 1))"

definition jitter_list :: "real list \<Rightarrow> real list" where
  \<comment> \<open>\<^verbatim>\<open>[abs(rtts[i] - rtts[i-1]) for i in range(1, len(rtts))]\<close>\<close>
  "jitter_list rs = map (\<lambda>i. \<bar>fsub (rs ! i) (rs ! (i - 1))\<bar>) [1..<length rs]"

definition run_ping_test :: "string \<Rightarrow> string \<Rightarrow> real option list \<Rightarrow> TestResult res" where
  "run_ping_test label sv outs =
     (case ping_loop outs [0..<PINGS_PER_TEST] ([], 0) of (rs, lost) \<Rightarrow>
      if rs \<noteq> [] then
        (let jv = jitter_list rs;
             sc = length (filter (\<lambda>r. r > SPIKE_THRESHOLD) rs) in
         then_res (mean rs) (\<lambda>avg.
         then_res (py_max rs) (\<lambda>mx.
         then_res (py_min rs) (\<lambda>mn.
         then_res (if jv \<noteq> [] then then_res (mean jv) (\<lambda>j. Inr (py_round 2 j)) else Inr 0)
           (\<lambda>avg_jitter.
         then_res (py_div (real sc) (real (length rs))) (\<lambda>q.
         Inr \<lparr>setting_name = label, setting_value = sv,
              packets_sent = PINGS_PER_TEST, packets_lost = lost,
              avg_latency_ms = py_round 2 avg,
              max_latency_ms = py_round 2 mx,
              min_latency_ms = py_round 2 mn,
              avg_jitter_ms = avg_jitter,
              spike_count = sc,
              spike_percentage = py_round 1 (fmul q 100),
              raw_rtts = rs\<rparr>))))))
      else
        Inr \<lparr>setting_name = label, setting_value = sv,
             packets_sent = PINGS_PER_TEST, packets_lost = lost,
             avg_latency_ms = 0, max_latency_ms = 0, min_latency_ms = 0,
             avg_jitter_ms = 0, spike_count = 0, spike_percentage = 0,
             raw_rtts = []\<rparr>)"

subsection \<open>The report\<close>

record best =
  best_setting :: string
  best_value :: real

record analysis =
  best_avg_latency :: best
  best_spike_rate :: best
  best_jitter :: best

record recommendation =
  rec_setting :: string
  rec_action :: string
  spike_reduction :: string
  jitter_change :: string

text \<open>Of the report only the derived entries are modelled; the date, the target, the
  thresholds and the per-test data are copies of the inputs.\<close>

record report =
  rep_analysis :: "analysis option"
  recommendations :: "recommendation list"

definition min_key :: "('a \<Rightarrow> real) \<Rightarrow> 'a list \<Rightarrow> 'a res" where
  \<comment> \<open>\<^verbatim>\<open>min(xs, key=...)\<close>: the first of the minimal elements; ValueError on an empty list\<close>
  "min_key key xs =
     (case xs of [] \<Rightarrow> Inl ValueError
      | x # r \<Rightarrow> Inr (fold (\<lambda>y b. if key y < key b then y else b) r x))"

definition generate_report :: "TestResult list \<Rightarrow> report res" where
  "generate_report results =
     (let valid_results = filter (\<lambda>r. avg_latency_ms r > 0) results in
      if valid_results \<noteq> [] then
        then_res (min_key avg_latency_ms valid_results) (\<lambda>best_by_latency.
        then_res (min_key spike_percentage valid_results) (\<lambda>best_by_spikes.
        then_res (min_key avg_jitter_ms valid_results) (\<lambda>best_by_jitter.
        let baseline = (case results of [] \<Rightarrow> None | b # _ \<Rightarrow> Some b) in
        Inr \<lparr>rep_analysis = Some
               \<lparr>best_avg_latency =
                  \<lparr>best_setting = setting_name best_by_latency,
                   best_value = avg_latency_ms best_by_latency\<rparr>,
                best_spike_rate =
                  \<lparr>best_setting = setting_name best_by_spikes,
                   best_value = spike_percentage best_by_spikes\<rparr>,
                best_jitter =
                  \<lparr>best_setting = setting_name best_by_jitter,
                   best_value = avg_jitter_ms best_by_jitter\<rparr>\<rparr>,
             recommendations =
               (case baseline of
                  None \<Rightarrow> []
                | Some b \<Rightarrow>
                    concat (map (\<lambda>result.
                      let improvement = fsub (spike_percentage b) (spike_percentage result) in
                      if improvement > 5 then
                        [\<lparr>rec_setting = setting_name result,
                          rec_action = ''Set to '' @ setting_value result,
                          spike_reduction = fmt_fixed 1 improvement @ ''%'',
                          jitter_change =
                            fmt_fixed 2 (fsub (avg_jitter_ms b) (avg_jitter_ms result)) @ ''ms''\<rparr>]
                      else []) (drop 1 results)))\<rparr>)))
      else Inr \<lparr>rep_analysis = None, recommendations = []\<rparr>)"

text \<open>
  The list \<^verbatim>\<open>self.results\<close> only ever receives what \<^verbatim>\<open>run_ping_test\<close> returns:
  \<open>measured\<close> is that list for the given labels, values and probe replies.
\<close>

definition measured :: "(string \<times> string \<times> real option list) list \<Rightarrow> TestResult list" where
  "measured inps = map (\<lambda>(label, sv, outs). projr (run_ping_test label sv outs)) inps"

subsection \<open>The host and its commands\<close>

text \<open>
  The orchestrator acts on the host only through external commands. The host is modelled
  by the values those commands read and write; \<open>sudo_ok\<close> says whether \<^verbatim>\<open>sudo -n\<close>
  succeeds and \<open>blueutil\<close> whether the blueutil tool is installed.
\<close>

record host_state =
  delayed_ack :: string
  doautorcvbuf :: string
  awdl_active :: bool
  bt_power :: bool
  sudo_ok :: bool
  blueutil :: bool

datatype cmd =
    SudoTrue                    \<comment> \<open>\<^verbatim>\<open>sudo -n true\<close>\<close>
  | Sysctl string               \<comment> \<open>\<^verbatim>\<open>sysctl key\<close>\<close>
  | SudoSysctlW string string   \<comment> \<open>\<^verbatim>\<open>sudo sysctl -w key=value\<close>\<close>
  | IfconfigAwdl                \<comment> \<open>\<^verbatim>\<open>ifconfig awdl0\<close>\<close>
  | SudoIfconfigAwdl bool       \<comment> \<open>\<^verbatim>\<open>sudo ifconfig awdl0 up\<close> (True) or \<^verbatim>\<open>down\<close> (False)\<close>
  | WhichBlueutil               \<comment> \<open>\<^verbatim>\<open>which blueutil\<close>\<close>
  | BlueutilPower               \<comment> \<open>\<^verbatim>\<open>blueutil --power\<close>\<close>
  | BlueutilSetPower string     \<comment> \<open>\<^verbatim>\<open>blueutil --power v\<close>\<close>
  | SystemProfiler              \<comment> \<open>\<^verbatim>\<open>system_profiler SPBluetoothDataType\<close>\<close>

text \<open>What a command prints, its return code, and the host afterwards.\<close>

fun exec :: "cmd \<Rightarrow> host_state \<Rightarrow> (string \<times> nat) \<times> host_state" where
  "exec SudoTrue h = (([], if sudo_ok h then 0 else 1), h)"
| "exec (Sysctl k) h =
     (if k = ''net.inet.tcp.delayed_ack'' then ((k @ '': '' @ delayed_ack h, 0), h)
      else if k = ''net.inet.tcp.doautorcvbuf'' then ((k @ '': '' @ doautorcvbuf h, 0), h)
      else (([], 1), h))"
| "exec (SudoSysctlW k v) h =
     (if \<not> sudo_ok h then (([], 1), h)
      else if k = ''net.inet.tcp.delayed_ack''
        then ((k @ '': '' @ delayed_ack h @ '' -> '' @ v, 0), h\<lparr>delayed_ack := v\<rparr>)
      else if k = ''net.inet.tcp.doautorcvbuf''
        then ((k @ '': '' @ doautorcvbuf h @ '' -> '' @ v, 0), h\<lparr>doautorcvbuf := v\<rparr>)
      else (([], 1), h))"
| "exec IfconfigAwdl h =
     ((if awdl_active h then ''awdl0: flags=8943<UP,RUNNING> status: active''
       else ''awdl0: flags=8902<RUNNING> status: inactive'', 0), h)"
| "exec (SudoIfconfigAwdl up) h =
     (if sudo_ok h then (([], 0), h\<lparr>awdl_active := up\<rparr>) else (([], 1), h))"
| "exec WhichBlueutil h =
     (if blueutil h then ((''/usr/local/bin/blueutil'', 0), h) else (([], 1), h))"
| "exec BlueutilPower h =
     (if blueutil h then ((if bt_power h then ''1'' else ''0'', 0), h) else (([], 1), h))"
| "exec (BlueutilSetPower v) h =
     (if blueutil h then (([], 0), h\<lparr>bt_power := (v = ''1'')\<rparr>) else (([], 1), h))"
| "exec SystemProfiler h =
     ((if bt_power h then ''Bluetooth: State: On'' else ''Bluetooth: State: Off'', 0), h)"

subsection \<open>Text helpers\<close>

definition is_space :: "char \<Rightarrow> bool" where
  "is_space c = (c \<in> set [CHR '' '', CHR 0x09, CHR 0x0A, CHR 0x0D, CHR 0x0B, CHR 0x0C])"

definition strip :: "string \<Rightarrow> string" where
  "strip s = rev (dropWhile is_space (rev (dropWhile is_space s)))"

definition lower :: "string \<Rightarrow> string" where
  "lower s = map (\<lambda>c. let n = (of_char c :: nat)
                      in if 65 \<le> n \<and> n \<le> 90 then char_of (n + 32) else c) s"

fun contains :: "string \<Rightarrow> string \<Rightarrow> bool" where
  \<comment> \<open>\<^verbatim>\<open>p in s\<close>\<close>
  "contains p [] = (p = [])"
| "contains p (c # s) = (take (length p) (c # s) = p \<or> contains p s)"

definition parse_sysctl :: "string \<Rightarrow> string" where
  "parse_sysctl output =
     (if CHR '':'' \<in> set output
        then strip (rev (takeWhile (\<lambda>c. c \<noteq> CHR '':'') (rev output)))
      else strip output)"

definition parse_awdl :: "string \<Rightarrow> string" where
  "parse_awdl output = (if contains ''status: active'' (lower output) then ''on'' else ''off'')"

subsection \<open>The settings registry and the state of a run\<close>

record SettingState =
  name :: string
  get_cmd :: cmd
  enable_cmd :: cmd
  disable_cmd :: cmd
  parse_current :: "string \<Rightarrow> string"
  requires_sudo :: bool
  original_value :: "string option"

definition SETTINGS :: "SettingState list" where
  "SETTINGS =
     [\<lparr>name = ''TCP Delayed ACK'',
       get_cmd = Sysctl ''net.inet.tcp.delayed_ack'',
       enable_cmd = SudoSysctlW ''net.inet.tcp.delayed_ack'' ''3'',
       disable_cmd = SudoSysctlW ''net.inet.tcp.delayed_ack'' ''0'',
       parse_current = parse_sysctl, requires_sudo = True, original_value = None\<rparr>,
      \<lparr>name = ''TCP Send/Recv Autotuning'',
       get_cmd = Sysctl ''net.inet.tcp.doautorcvbuf'',
       enable_cmd = SudoSysctlW ''net.inet.tcp.doautorcvbuf'' ''1'',
       disable_cmd = SudoSysctlW ''net.inet.tcp.doautorcvbuf'' ''0'',
       parse_current = parse_sysctl, requires_sudo = True, original_value = None\<rparr>]"

datatype exn = KeyboardInterrupt | SystemExit nat | TimeoutExpired | Error string

text \<open>What can arrive from outside during a blocking call: the user's interrupt, the
  expiry of the 10 s limit of \<^verbatim>\<open>run_cmd\<close>, or a failure of the call (an \<^verbatim>\<open>OSError\<close>, say).\<close>

datatype fault = Interrupt | Timeout | Failure string

fun raise_of :: "fault \<Rightarrow> exn" where
  "raise_of Interrupt = KeyboardInterrupt"
| "raise_of Timeout = TimeoutExpired"
| "raise_of (Failure msg) = Error msg"

datatype event =
    EvSave                          \<comment> \<open>\<^verbatim>\<open>save_original_states\<close> entered\<close>
  | EvSaved                         \<comment> \<open>\<^verbatim>\<open>save_original_states\<close> returned\<close>
  | EvRestore                       \<comment> \<open>\<^verbatim>\<open>restore_original_states\<close> entered\<close>
  | EvApply string bool             \<comment> \<open>\<^verbatim>\<open>apply_setting(name, enable)\<close> entered\<close>
  | EvPing string string host_state \<comment> \<open>a batch of probes starts, on this host configuration\<close>
  | EvReport                        \<comment> \<open>\<^verbatim>\<open>generate_report\<close> entered\<close>

text \<open>
  The state of a run: the host, the module-level settings list (its \<open>original_value\<close>
  fields are assigned by the save), the fields of the \<^verbatim>\<open>NetworkOptimizer\<close> object, and the
  environment. \<open>clock\<close> counts the blocking calls made so far (a command, a sleep, a batch
  of probes); \<open>faults\<close> schedules the exception, if any, that arrives during the call with
  a given number; \<open>feed\<close> holds the replies of the coming batches of probes.
\<close>

record world =
  host :: host_state
  settings :: "SettingState list"
  results :: "TestResult list"
  original_states :: "(string \<times> string) list"
  has_blueutil :: bool
  saved_report :: "report option"
  trace :: "event list"
  clock :: nat
  faults :: "(nat \<times> fault) list"
  feed :: "real option list list"

type_synonym stmt = "world \<Rightarrow> exn option \<times> world"

fun block :: "stmt list \<Rightarrow> stmt" where
  "block [] w = (None, w)"
| "block (s # ss) w = (case s w of (None, w') \<Rightarrow> block ss w' | (Some e, w') \<Rightarrow> (Some e, w'))"

definition try_finally :: "stmt \<Rightarrow> stmt \<Rightarrow> stmt" where
  \<comment> \<open>the final block runs on every exit; an exception of its own replaces a pending one\<close>
  "try_finally body fin w =
     (case body w of (r, w') \<Rightarrow>
        (case fin w' of (None, w'') \<Rightarrow> (r, w'') | (Some e, w'') \<Rightarrow> (Some e, w'')))"

definition try_except_KeyboardInterrupt :: "stmt \<Rightarrow> stmt \<Rightarrow> stmt" where
  "try_except_KeyboardInterrupt body handler w =
     (case body w of (Some KeyboardInterrupt, w') \<Rightarrow> handler w' | r \<Rightarrow> r)"

definition emit :: "event \<Rightarrow> stmt" where
  "emit ev w = (None, w\<lparr>trace := trace w @ [ev]\<rparr>)"

definition raise :: "exn \<Rightarrow> stmt" where
  "raise e w = (Some e, w)"

definition blocking :: stmt where
  \<comment> \<open>a blocking call: the scheduled exception, if any, arrives\<close>
  "blocking w = (map_option raise_of (map_of (faults w) (clock w)), w\<lparr>clock := clock w + 1\<rparr>)"

definition sleep :: stmt where
  "sleep = blocking"

text \<open>\<^verbatim>\<open>run_cmd\<close> returns the stripped output and the return code; it catches
  \<^verbatim>\<open>Exception\<close> and returns code 1, while a KeyboardInterrupt or SystemExit is not an
  \<^verbatim>\<open>Exception\<close> and propagates.\<close>

definition run_cmd :: "cmd \<Rightarrow> world \<Rightarrow> (exn + string \<times> nat) \<times> world" where
  "run_cmd c w =
     (case blocking w of
        (Some TimeoutExpired, w') \<Rightarrow> (Inr ([], 1), w')
      | (Some (Error msg), w') \<Rightarrow> (Inr (msg, 1), w')
      | (Some e, w') \<Rightarrow> (Inl e, w')
      | (None, w') \<Rightarrow>
          (case exec c (host w') of
             ((out, code), h) \<Rightarrow> (Inr (strip out, code), w'\<lparr>host := h\<rparr>)))"

definition do_cmd :: "cmd \<Rightarrow> stmt" where
  \<comment> \<open>\<^verbatim>\<open>run_cmd(cmd)\<close> as a statement, the result dropped\<close>
  "do_cmd c w = (case run_cmd c w of (Inl e, w') \<Rightarrow> (Some e, w') | (Inr _, w') \<Rightarrow> (None, w'))"

definition dict_set :: "string \<Rightarrow> string \<Rightarrow> (string \<times> string) list \<Rightarrow> (string \<times> string) list" where
  \<comment> \<open>\<^verbatim>\<open>d[k] = v\<close> on a dict, which keeps insertion order\<close>
  "dict_set k v d = (if k \<in> set (map fst d) then map (\<lambda>(k', v'). (k', if k' = k then v else v')) d
                     else d @ [(k, v)])"

definition dict_get :: "(string \<times> string) list \<Rightarrow> string \<Rightarrow> string option" where
  "dict_get d k = map_of d k"

subsection \<open>The operations of the orchestrator\<close>

definition check_sudo :: stmt where
  "check_sudo w =
     (case run_cmd SudoTrue w of
        (Inl e, w') \<Rightarrow> (Some e, w')
      | (Inr (result, code), w') \<Rightarrow>
          if code \<noteq> 0 then (Some (SystemExit 1), w') else (None, w'))"

definition init_optimizer :: stmt where
  \<comment> \<open>\<^verbatim>\<open>NetworkOptimizer.__init__\<close>, with \<^verbatim>\<open>_check_blueutil\<close>\<close>
  "init_optimizer w =
     (case run_cmd WhichBlueutil w of
        (Inl e, w') \<Rightarrow> (Some e, w')
      | (Inr (out, code), w') \<Rightarrow>
          (None, w'\<lparr>results := [], original_states := [], has_blueutil := (code = 0)\<rparr>))"

definition get_awdl_state :: "world \<Rightarrow> (exn + string) \<times> world" where
  "get_awdl_state w =
     (case run_cmd IfconfigAwdl w of
        (Inl e, w') \<Rightarrow> (Inl e, w')
      | (Inr (output, code), w') \<Rightarrow> (Inr (parse_awdl output), w'))"

definition get_bluetooth_state :: "world \<Rightarrow> (exn + string) \<times> world" where
  "get_bluetooth_state w =
     (case run_cmd BlueutilPower w of
        (Inl e, w') \<Rightarrow> (Inl e, w')
      | (Inr (output, code), w') \<Rightarrow>
          if code = 0 then (Inr (if strip output = ''1'' then ''on'' else ''off''), w')
          else
            (case run_cmd SystemProfiler w' of
               (Inl e, w'') \<Rightarrow> (Inl e, w'')
             | (Inr (output', code'), w'') \<Rightarrow>
                 (Inr (if contains ''State: On'' output' then ''on'' else ''off''), w'')))"

definition save_setting :: "nat \<Rightarrow> stmt" where
  \<comment> \<open>the body of the loop over the settings list, for its \<open>i\<close>-th entry\<close>
  "save_setting i w =
     (let setting = settings w ! i in
      case run_cmd (get_cmd setting) w of
        (Inl e, w') \<Rightarrow> (Some e, w')
      | (Inr (output, code), w') \<Rightarrow>
          (let v = parse_current setting output in
           (None, w'\<lparr>settings := (settings w')[i := setting\<lparr>original_value := Some v\<rparr>],
                      original_states := dict_set (name setting) v (original_states w')\<rparr>)))"

definition save_awdl :: stmt where
  "save_awdl w =
     (case get_awdl_state w of
        (Inl e, w') \<Rightarrow> (Some e, w')
      | (Inr v, w') \<Rightarrow> (None, w'\<lparr>original_states := dict_set ''AWDL'' v (original_states w')\<rparr>))"

definition save_bluetooth :: stmt where
  "save_bluetooth w =
     (case get_bluetooth_state w of
        (Inl e, w') \<Rightarrow> (Some e, w')
      | (Inr v, w') \<Rightarrow>
          (None, w'\<lparr>original_states := dict_set ''Bluetooth'' v (original_states w')\<rparr>))"

definition save_original_states :: stmt where
  "save_original_states w =
     block ([emit EvSave] @ map save_setting [0..<length (settings w)] @
            [save_awdl, save_bluetooth, emit EvSaved]) w"

definition restore_setting :: "nat \<Rightarrow> stmt" where
  "restore_setting i w =
     (let setting = settings w ! i in
      case original_value setting of
        None \<Rightarrow> (None, w)
      | Some v \<Rightarrow>
          if name setting = ''TCP Delayed ACK''
            then do_cmd (SudoSysctlW ''net.inet.tcp.delayed_ack'' v) w
          else if name setting = ''TCP Send/Recv Autotuning''
            then do_cmd (SudoSysctlW ''net.inet.tcp.doautorcvbuf'' v) w
          else (None, w))"

definition restore_awdl :: stmt where
  "restore_awdl w =
     (if dict_get (original_states w) ''AWDL'' = Some ''on''
        then do_cmd (SudoIfconfigAwdl True) w
      else (None, w))"

definition restore_bluetooth :: stmt where
  "restore_bluetooth w =
     (if has_blueutil w
        then do_cmd (BlueutilSetPower
               (if dict_get (original_states w) ''Bluetooth'' = Some ''on'' then ''1'' else ''0'')) w
      else (None, w))"

definition restore_original_states :: stmt where
  "restore_original_states w =
     block ([emit EvRestore] @ map restore_setting [0..<length (settings w)] @
            [restore_awdl, restore_bluetooth]) w"

definition apply_setting :: "string \<Rightarrow> bool \<Rightarrow> stmt" where
  "apply_setting nm enable =
     block
       [emit (EvApply nm enable),
        (if nm = ''TCP Delayed ACK''
           then do_cmd (SudoSysctlW ''net.inet.tcp.delayed_ack'' (if enable then ''3'' else ''0''))
         else if nm = ''TCP Send/Recv Autotuning''
           then do_cmd (SudoSysctlW ''net.inet.tcp.doautorcvbuf'' (if enable then ''1'' else ''0''))
         else if nm = ''AWDL''
           then do_cmd (SudoIfconfigAwdl enable)
         else if nm = ''Bluetooth''
           then (\<lambda>w. if has_blueutil w
                      then block [do_cmd (BlueutilSetPower (if enable then ''1'' else ''0'')),
                                  sleep] w
                      else (None, w))
         else block [])]"

fun exn_of :: "py_error \<Rightarrow> exn" where
  "exn_of ZeroDivisionError = Error ''ZeroDivisionError''"
| "exn_of StatisticsError = Error ''StatisticsError''"
| "exn_of ValueError = Error ''ValueError''"

text \<open>
  \<^verbatim>\<open>self.results.append(self.run_ping_test(label, value))\<close>. The batch is one blocking
  call: an exception that arrives while it runs (nothing catches one here) abandons it,
  and its partial measurements, which are local, are lost.
\<close>

definition append_ping_test :: "string \<Rightarrow> string \<Rightarrow> stmt" where
  "append_ping_test label sv w =
     (case blocking (w\<lparr>trace := trace w @ [EvPing label sv (host w)]\<rparr>) of
        (Some e, w') \<Rightarrow> (Some e, w')
      | (None, w') \<Rightarrow>
          (case run_ping_test label sv (case feed w' of [] \<Rightarrow> [] | outs # _ \<Rightarrow> outs) of
             Inl err \<Rightarrow> (Some (exn_of err), w'\<lparr>feed := drop 1 (feed w')\<rparr>)
           | Inr r \<Rightarrow> (None, w'\<lparr>feed := drop 1 (feed w'), results := results w' @ [r]\<rparr>)))"

definition write_report :: stmt where
  \<comment> \<open>\<^verbatim>\<open>self.generate_report()\<close>\<close>
  "write_report w =
     (case generate_report (results w) of
        Inl err \<Rightarrow> (Some (exn_of err), w\<lparr>trace := trace w @ [EvReport]\<rparr>)
      | Inr r \<Rightarrow> (None, w\<lparr>trace := trace w @ [EvReport], saved_report := Some r\<rparr>))"

definition when_blueutil :: "stmt \<Rightarrow> stmt" where
  \<comment> \<open>\<^verbatim>\<open>if self.has_blueutil: ...\<close>\<close>
  "when_blueutil s w = (if has_blueutil w then s w else (None, w))"

definition run_all_tests :: stmt where
  "run_all_tests =
     block
       [save_original_states,
        try_finally
          (block
             [append_ping_test ''Baseline'' ''current'',
              apply_setting ''TCP Delayed ACK'' False,
              append_ping_test ''TCP Delayed ACK'' ''disabled'',
              apply_setting ''TCP Delayed ACK'' True,
              apply_setting ''AWDL'' False,
              sleep,
              append_ping_test ''AWDL'' ''disabled'',
              apply_setting ''AWDL'' True,
              when_blueutil
                (block
                   [apply_setting ''Bluetooth'' False,
                    append_ping_test ''Bluetooth'' ''disabled'',
                    apply_setting ''Bluetooth'' True]),
              apply_setting ''TCP Delayed ACK'' False,
              apply_setting ''AWDL'' False,
              when_blueutil (apply_setting ''Bluetooth'' False),
              sleep,
              append_ping_test ''All Optimizations'' ''enabled''])
          restore_original_states,
        write_report]"

definition boot :: "host_state \<Rightarrow> (nat \<times> fault) list \<Rightarrow> real option list list \<Rightarrow> world" where
  \<comment> \<open>the state at process start\<close>
  "boot h fs fd =
     \<lparr>host = h, settings = SETTINGS, results = [], original_states = [],
      has_blueutil = False, saved_report = None, trace = [], clock = 0,
      faults = fs, feed = fd\<rparr>"

definition main :: "host_state \<Rightarrow> (nat \<times> fault) list \<Rightarrow> real option list list \<Rightarrow> exn option \<times> world" where
  "main h fs fd =
     block
       [check_sudo,
        init_optimizer,
        try_except_KeyboardInterrupt run_all_tests
          (block [restore_original_states, raise (SystemExit 1)])]
       (boot h fs fd)"

definition exit_status :: "exn option \<Rightarrow> nat" where
  \<comment> \<open>the status of the process: 0 on a normal end, the argument of \<^verbatim>\<open>sys.exit\<close>,
      130 for an uncaught interrupt, 1 for any other uncaught exception\<close>
  "exit_status r =
     (case r of None \<Rightarrow> 0 | Some (SystemExit n) \<Rightarrow> n
      | Some KeyboardInterrupt \<Rightarrow> 130 | Some _ \<Rightarrow> 1)"

subsection \<open>The effect of a restore on the host\<close>

text \<open>
  What \<^verbatim>\<open>restore_original_states\<close> does to the host when no exception arrives while it
  runs, written as a function of the captured values: first the two kernel variables, in
  the order of the settings list, then the AWDL interface, then the Bluetooth power.
\<close>

definition restore_setting_host :: "SettingState \<Rightarrow> host_state \<Rightarrow> host_state" where
  "restore_setting_host setting h =
     (case original_value setting of
        None \<Rightarrow> h
      | Some v \<Rightarrow>
          if name setting = ''TCP Delayed ACK''
            then snd (exec (SudoSysctlW ''net.inet.tcp.delayed_ack'' v) h)
          else if name setting = ''TCP Send/Recv Autotuning''
            then snd (exec (SudoSysctlW ''net.inet.tcp.doautorcvbuf'' v) h)
          else h)"

definition restore_host ::
    "SettingState list \<Rightarrow> (string \<times> string) list \<Rightarrow> bool \<Rightarrow> host_state \<Rightarrow> host_state" where
  "restore_host ss captured hb h =
     (let h1 = fold restore_setting_host ss h;
          h2 = (if dict_get captured ''AWDL'' = Some ''on''
                  then snd (exec (SudoIfconfigAwdl True) h1) else h1)
      in if hb
           then snd (exec (BlueutilSetPower
                  (if dict_get captured ''Bluetooth'' = Some ''on'' then ''1'' else ''0'')) h2)
         else h2)"

section \<open>Properties of the rounding\<close>

lemma round_half_even_ge_floor: "\<lfloor>y\<rfloor> \<le> round_half_even y"
  by (simp add: round_half_even_def Let_def)

lemma round_half_even_zero: "round_half_even 0 = 0"
  by (simp add: round_half_even_def)

lemma round_half_even_nonpos: "y \<le> 0 \<Longrightarrow> round_half_even y \<le> 0"
proof -
  assume y: "y \<le> 0"
  show ?thesis
  proof (cases "y = of_int \<lfloor>y\<rfloor>")
    case True
    then have "round_half_even y = \<lfloor>y\<rfloor>"
      by (simp add: round_half_even_def Let_def)
    with y show ?thesis by simp
  next
    case False
    then have "of_int \<lfloor>y\<rfloor> < y" by linarith
    with y have "\<lfloor>y\<rfloor> < 0" by linarith
    moreover have "round_half_even y \<le> \<lfloor>y\<rfloor> + 1"
      by (simp add: round_half_even_def Let_def)
    ultimately show ?thesis by linarith
  qed
qed

lemma pow2_pos: "0 < pow2 e"
  by (simp add: pow2_def)

lemma pow2_powr: "pow2 e = 2 powr real_of_int e"
proof (cases "0 \<le> e")
  case True
  then have "real_of_int e = real (nat e)" by simp
  then have "2 powr real_of_int e = 2 ^ nat e"
    by (simp only: powr_realpow [of 2 "nat e", simplified])
  with True show ?thesis by (simp add: pow2_def)
next
  case False
  then have "real_of_int e = - real (nat (- e))" by simp
  then have "2 powr real_of_int e = 1 / 2 ^ nat (- e)"
    by (simp only: powr_minus powr_realpow [of 2 "nat (- e)", simplified] inverse_eq_divide)
  with False show ?thesis by (simp add: pow2_def)
qed

lemma pow2_shift: "pow2 e = 2 ^ 52 * pow2 (e - 52)"
proof -
  have "pow2 e = 2 powr (52 + real_of_int (e - 52))"
    by (simp add: pow2_powr)
  also have "\<dots> = 2 powr 52 * 2 powr real_of_int (e - 52)"
    by (rule powr_add)
  also have "2 powr 52 = (2::real) ^ 52"
    using powr_realpow [of 2 52] by simp
  finally show ?thesis by (simp add: pow2_powr)
qed

lemma expo_up_le: "pow2 e \<le> a \<Longrightarrow> pow2 (expo_up n e a) \<le> a"
  by (induction n arbitrary: e) simp_all

lemma expo_down_le: "pow2 (e - int n) \<le> a \<Longrightarrow> pow2 (expo_down n e a) \<le> a"
proof (induction n arbitrary: e)
  case 0
  then show ?case by simp
next
  case (Suc n)
  have eq: "e - 1 - int n = e - int (Suc n)" by simp
  from Suc.prems have "pow2 (e - 1 - int n) \<le> a" by (simp only: eq)
  from Suc.IH [OF this] show ?case by simp
qed

lemma expo_le: "pow2 (- 1022) \<le> a \<Longrightarrow> pow2 (expo a) \<le> a"
proof -
  assume a: "pow2 (- 1022) \<le> a"
  show ?thesis
  proof (cases "1 \<le> a")
    case True
    then have "pow2 0 \<le> a" by (simp add: pow2_def)
    from expo_up_le [OF this] True show ?thesis by (simp add: expo_def)
  next
    case False
    have "pow2 (- 1 - int 1021) \<le> a" using a by simp
    from expo_down_le [OF this] False show ?thesis by (simp add: expo_def)
  qed
qed

lemma to_double_zero: "to_double 0 = 0"
  by (simp add: to_double_def)

lemma to_double_nonneg: "0 \<le> x \<Longrightarrow> 0 \<le> to_double x"
proof -
  assume x: "0 \<le> x"
  let ?u = "pow2 (expo \<bar>x\<bar> - 52)"
  have "0 \<le> x / ?u" using x pow2_pos [of "expo \<bar>x\<bar> - 52"] by simp
  then have "0 \<le> \<lfloor>x / ?u\<rfloor>" by simp
  with round_half_even_ge_floor [of "x / ?u"] have "0 \<le> round_half_even (x / ?u)"
    by linarith
  then show ?thesis
    using pow2_pos [of "expo \<bar>x\<bar> - 52"] by (simp add: to_double_def Let_def)
qed

lemma to_double_nonpos: "x \<le> 0 \<Longrightarrow> to_double x \<le> 0"
proof -
  assume x: "x \<le> 0"
  let ?u = "pow2 (expo \<bar>x\<bar> - 52)"
  have "x / ?u \<le> 0" using x pow2_pos [of "expo \<bar>x\<bar> - 52"] by (simp add: divide_nonpos_pos)
  then have "round_half_even (x / ?u) \<le> 0" by (rule round_half_even_nonpos)
  then have "real_of_int (round_half_even (x / ?u)) * ?u \<le> 0"
    using pow2_pos [of "expo \<bar>x\<bar> - 52"] by (simp add: mult_le_0_iff)
  then show ?thesis
    by (simp add: to_double_def Let_def)
qed

text \<open>In the normal range the rounding loses less than half of a positive number.\<close>

lemma to_double_lower:
  assumes "pow2 (- 1022) \<le> x"
  shows "x / 2 \<le> to_double x"
proof -
  have x: "0 < x" using assms pow2_pos [of "- 1022"] by linarith
  define u where "u = pow2 (expo x - 52)"
  define k where "k = real_of_int (round_half_even (x / u))"
  have u: "0 < u" unfolding u_def by (rule pow2_pos)
  have "pow2 (expo x) \<le> x" using assms by (rule expo_le)
  then have ux: "2 ^ 52 * u \<le> x" unfolding u_def using pow2_shift [of "expo x"] by simp
  have "x / u - 1 < of_int \<lfloor>x / u\<rfloor>" by linarith
  also have "\<dots> \<le> k"
    unfolding k_def using round_half_even_ge_floor [of "x / u"] by simp
  finally have "(x / u - 1) * u \<le> k * u"
    using u by simp
  moreover have "(x / u - 1) * u = x - u"
    using u by (simp add: field_simps)
  ultimately have 1: "x - u \<le> k * u" by simp
  have "2 * u \<le> 2 ^ 52 * u" using u by simp
  with ux have 2: "u \<le> x / 2" by simp
  from 1 2 have "x / 2 \<le> k * u" by linarith
  then show ?thesis
    using x by (simp add: to_double_def Let_def u_def k_def)
qed

lemma pow2_tiny: "pow2 (- 1022) \<le> 1 / 100"
proof -
  have "(2::real) ^ 7 \<le> 2 ^ 1022" by (rule power_increasing) simp_all
  then have "(100::real) \<le> 2 ^ 1022" by simp
  then have "1 / (2::real) ^ 1022 \<le> 1 / 100"
    by (simp add: field_simps)
  then show ?thesis by (simp add: pow2_def)
qed

lemma py_round_zero: "py_round d 0 = 0"
  by (simp add: py_round_def round_half_even_zero to_double_zero)

lemma py_round_nonneg: "0 \<le> x \<Longrightarrow> 0 \<le> py_round d x"
proof -
  assume "0 \<le> x"
  then have "0 \<le> \<lfloor>x * 10 ^ d\<rfloor>" by simp
  with round_half_even_ge_floor [of "x * 10 ^ d"] have "0 \<le> round_half_even (x * 10 ^ d)"
    by linarith
  then show ?thesis
    unfolding py_round_def by (intro to_double_nonneg) simp
qed

lemma py_round_2_pos:
  assumes "1 / 100 \<le> x"
  shows "0 < py_round 2 x"
proof -
  from assms have "1 \<le> x * 10 ^ 2" by simp
  then have "1 \<le> \<lfloor>x * 10 ^ 2\<rfloor>" by linarith
  with round_half_even_ge_floor [of "x * 10 ^ 2"] have k: "1 \<le> round_half_even (x * 10 ^ 2)"
    by linarith
  then have "1 / 100 \<le> real_of_int (round_half_even (x * 10 ^ 2)) / 10 ^ 2"
    by simp
  with pow2_tiny have "pow2 (- 1022) \<le> real_of_int (round_half_even (x * 10 ^ 2)) / 10 ^ 2"
    by linarith
  from to_double_lower [OF this] k show ?thesis
    unfolding py_round_def by simp
qed

text \<open>The rounding on some values, as the interpreter computes them: the difference of
  8.3 and 3.3 exceeds 5, that of 5.2 and 0.2 does not; 23 spikes in 80 replies are 28.7
  percent.\<close>

lemma to_double_examples:
  "to_double 1 = 1" "to_double (- 34) = - 34" "to_double 34 = 34" "to_double 25 = 25"
  "to_double 8 = 8"
  "fsub (to_double (83 / 10)) (to_double (33 / 10)) = 5 + 1 / 2 ^ 50"
  "fsub (to_double (52 / 10)) (to_double (2 / 10)) = 5"
  "fsub (to_double (8002 / 1000)) (to_double (3002 / 1000)) = 5 + 1 / 2 ^ 50"
  "py_round 1 (fmul (to_double (23 / 80)) 100) = to_double (287 / 10)"
  "py_round 2 \<bar>fsub (to_double (1015 / 1000)) 1\<bar> = to_double (1 / 100)"
  by code_simp+

section \<open>Properties of the continuous monitor\<close>

lemma analyze_loop_snoc: "analyze_loop (outs @ [out]) = analyze_step out (analyze_loop outs)"
  by (simp add: analyze_loop_def)

lemma log_rows_step:
  "log_rows (analyze_step out m) = log_rows m @ [last (log_rows (analyze_step out m))]"
  by (cases out) (simp_all add: analyze_step_def Let_def)

lemma length_log_rows: "length (log_rows (analyze_loop outs)) = length outs"
proof (induction outs rule: rev_induct)
  case Nil
  show ?case by (simp add: analyze_loop_def monitor_init_def)
next
  case (snoc out outs)
  have "length (log_rows (analyze_step out (analyze_loop outs))) =
        Suc (length (log_rows (analyze_loop outs)))"
    by (subst log_rows_step) simp
  with snoc show ?case by (simp add: analyze_loop_snoc)
qed

lemma log_rows_take:
  "i \<le> length outs \<Longrightarrow> log_rows (analyze_loop (take i outs)) = take i (log_rows (analyze_loop outs))"
proof (induction outs rule: rev_induct)
  case Nil
  then show ?case by (simp add: analyze_loop_def monitor_init_def)
next
  case (snoc out outs)
  show ?case
  proof (cases "i \<le> length outs")
    case True
    have "take i (log_rows (analyze_loop (outs @ [out]))) = take i (log_rows (analyze_loop outs))"
      unfolding analyze_loop_snoc
      by (subst log_rows_step) (simp add: length_log_rows True)
    with snoc.IH [OF True] True show ?thesis by simp
  next
    case False
    with snoc.prems have "i = length (outs @ [out])" by simp
    then show ?thesis
      using length_log_rows [of "outs @ [out]"] by simp
  qed
qed

lemma log_rows_nth:
  assumes "i < length outs"
  shows "log_rows (analyze_loop outs) ! i =
         last (log_rows (analyze_step (outs ! i) (analyze_loop (take i outs))))"
proof -
  have "take (Suc i) outs = take i outs @ [outs ! i]"
    using assms by (simp add: take_Suc_conv_app_nth)
  then have "log_rows (analyze_loop (take (Suc i) outs)) =
             log_rows (analyze_step (outs ! i) (analyze_loop (take i outs)))"
    by (simp add: analyze_loop_snoc)
  moreover have "log_rows (analyze_loop (take (Suc i) outs)) = take (Suc i) (log_rows (analyze_loop outs))"
    using assms by (intro log_rows_take) simp
  ultimately have eq: "take (Suc i) (log_rows (analyze_loop outs)) =
             log_rows (analyze_step (outs ! i) (analyze_loop (take i outs)))" by simp
  have "log_rows (analyze_loop outs) ! i = last (take (Suc i) (log_rows (analyze_loop outs)))"
    using assms by (simp add: length_log_rows take_Suc_conv_app_nth)
  with eq show ?thesis by simp
qed

lemma prev_rtt_loop:
  "prev_rtt (analyze_loop outs) = (if outs = [] then None else last outs)"
proof (induction outs rule: rev_induct)
  case Nil show ?case by (simp add: analyze_loop_def monitor_init_def)
next
  case (snoc out outs)
  show ?case by (cases out) (simp_all add: analyze_loop_snoc analyze_step_def Let_def)
qed


lemma sent_loop: "sent (mstats (analyze_loop outs)) = length outs"
proof (induction outs rule: rev_induct)
  case Nil show ?case by (simp add: analyze_loop_def monitor_init_def)
next
  case (snoc out outs)
  then show ?case
    by (cases out) (simp_all add: analyze_loop_snoc analyze_step_def Let_def split: option.split)
qed

lemma summary_defined:
  "\<exists>s. summary target st = Inr s \<and> (s = None \<longleftrightarrow> sent st = 0)"
  by (simp add: summary_def py_div_def mean_def py_max_def then_res_def Let_def
           split: list.split)

text \<open>
  Claim C2. With the spike threshold 15.0 ms and the jitter threshold 5.0 ms, the monitor
  tags the successful RTT sequence 5, 6, 40, 41, 7 as OK, OK, LagSpike, LagSpike,
  HighJitter. In general a sample whose RTT exceeds the spike threshold is a LagSpike
  whatever its jitter, and a sample at or below the spike threshold whose jitter (the
  absolute value of the float difference to the previous successful RTT) exceeds 5.0 is
  HighJitter.
\<close>

theorem monitor_classifier_example:
  "SPIKE_THRESHOLD = 15 \<and>
   map row_status (fst (analyze_lan target [Some 5, Some 6, Some 40, Some 41, Some 7]))
     = [OK, OK, LagSpike, LagSpike, HighJitter] \<and>
   (rtt > SPIKE_THRESHOLD \<longrightarrow>
      row_status (last (log_rows (analyze_step (Some rtt) m))) = LagSpike) \<and>
   (prev_rtt m = Some p \<and> rtt \<le> SPIKE_THRESHOLD \<and> \<bar>fsub rtt p\<bar> > 5 \<longrightarrow>
      row_jitter (last (log_rows (analyze_step (Some rtt) m))) = \<bar>fsub rtt p\<bar> \<and>
      row_status (last (log_rows (analyze_step (Some rtt) m))) = HighJitter)"
  by (simp add: analyze_lan_def analyze_loop_def analyze_step_def monitor_init_def Let_def
        SPIKE_THRESHOLD_def fsub_def to_double_examples)

theorem monitor_classifier_example_witness:
  "(41::real) > SPIKE_THRESHOLD \<and>
   row_status (last (log_rows (analyze_step (Some 41)
      (analyze_loop [Some 5, Some 6, Some 40])))) = LagSpike \<and>
   prev_rtt (analyze_loop [Some 5, Some 6, Some 40, Some 41]) = Some 41 \<and>
   (7::real) \<le> SPIKE_THRESHOLD \<and> \<bar>fsub 7 41\<bar> > 5 \<and>
   row_jitter (last (log_rows (analyze_step (Some 7)
      (analyze_loop [Some 5, Some 6, Some 40, Some 41])))) = 34 \<and>
   row_status (last (log_rows (analyze_step (Some 7)
      (analyze_loop [Some 5, Some 6, Some 40, Some 41])))) = HighJitter"
proof -
  have h1: "(41::real) > SPIKE_THRESHOLD"
    by (simp add: SPIKE_THRESHOLD_def)
  have h2: "prev_rtt (analyze_loop [Some 5, Some 6, Some 40, Some 41]) = Some 41"
    by (simp add: prev_rtt_loop)
  have h3: "(7::real) \<le> SPIKE_THRESHOLD"
    by (simp add: SPIKE_THRESHOLD_def)
  have j: "\<bar>fsub 7 41\<bar> = 34"
    by (simp add: fsub_def to_double_examples)
  then have h4: "\<bar>fsub 7 41\<bar> > 5"
    by simp
  from h1 monitor_classifier_example
         [of "''192.168.0.243''" 41 "analyze_loop [Some 5, Some 6, Some 40]" 40]
  have c1: "row_status (last (log_rows (analyze_step (Some 41)
      (analyze_loop [Some 5, Some 6, Some 40])))) = LagSpike"
    by blast
  from h2 h3 h4 monitor_classifier_example
         [of "''192.168.0.243''" 7 "analyze_loop [Some 5, Some 6, Some 40, Some 41]" 41]
  have "row_jitter (last (log_rows (analyze_step (Some 7)
      (analyze_loop [Some 5, Some 6, Some 40, Some 41])))) = \<bar>fsub 7 41\<bar> \<and>
   row_status (last (log_rows (analyze_step (Some 7)
      (analyze_loop [Some 5, Some 6, Some 40, Some 41])))) = HighJitter"
    by blast
  with j have c2: "row_jitter (last (log_rows (analyze_step (Some 7)
      (analyze_loop [Some 5, Some 6, Some 40, Some 41])))) = 34 \<and>
   row_status (last (log_rows (analyze_step (Some 7)
      (analyze_loop [Some 5, Some 6, Some 40, Some 41])))) = HighJitter"
    by simp
  from h1 h2 h3 h4 c1 c2 show ?thesis by blast
qed

text \<open>At the jitter threshold the float difference decides, as in the interpreter: after
  0.2 ms a reply of 5.2 ms has the jitter 5.0 and is OK, while after 3.002 ms a reply of
  8.002 ms has a jitter just above 5.0 and is HighJitter.\<close>

lemma monitor_jitter_boundary_ok:
  "map row_status (fst (analyze_lan ''192.168.0.243''
      [Some (to_double (2 / 10)), Some (to_double (52 / 10))])) = [OK, OK] \<and>
   map row_jitter (fst (analyze_lan ''192.168.0.243''
      [Some (to_double (2 / 10)), Some (to_double (52 / 10))])) = [0, 5]"
proof -
  define a where "a = to_double (2 / 10)"
  define b where "b = to_double (52 / 10)"
  have f: "fsub b a = 5" "\<not> 15 < a" "\<not> 15 < b"
    unfolding a_def b_def by code_simp+
  have "map row_status (fst (analyze_lan ''192.168.0.243'' [Some a, Some b])) = [OK, OK] \<and>
        map row_jitter (fst (analyze_lan ''192.168.0.243'' [Some a, Some b])) = [0, 5]"
    by (simp add: analyze_lan_def analyze_loop_def analyze_step_def monitor_init_def Let_def
          SPIKE_THRESHOLD_def f)
  then show ?thesis
    unfolding a_def b_def .
qed

lemma monitor_jitter_boundary_high:
  "map row_status (fst (analyze_lan ''192.168.0.243''
      [Some (to_double (3002 / 1000)), Some (to_double (8002 / 1000))])) = [OK, HighJitter] \<and>
   map row_jitter (fst (analyze_lan ''192.168.0.243''
      [Some (to_double (3002 / 1000)), Some (to_double (8002 / 1000))])) = [0, 5 + 1 / 2 ^ 50]"
proof -
  define a where "a = to_double (3002 / 1000)"
  define b where "b = to_double (8002 / 1000)"
  have f: "fsub b a = 5 + 1 / 2 ^ 50" "\<not> 15 < a" "\<not> 15 < b"
    unfolding a_def b_def by code_simp+
  have "map row_status (fst (analyze_lan ''192.168.0.243'' [Some a, Some b]))
          = [OK, HighJitter] \<and>
        map row_jitter (fst (analyze_lan ''192.168.0.243'' [Some a, Some b]))
          = [0, 5 + 1 / 2 ^ 50]"
    by (simp add: analyze_lan_def analyze_loop_def analyze_step_def monitor_init_def Let_def
          SPIKE_THRESHOLD_def f)
  then show ?thesis
    unfolding a_def b_def .
qed

text \<open>
  Claim C3, as stated, asks that the first success after a loss takes its jitter against
  the last success before the loss. On the probes 1 ms, timeout, 10 ms the third row has
  jitter 0 and status OK, not jitter 9.
\<close>

theorem monitor_jitter_after_loss_counterexample:
  "map row_status (fst (analyze_lan ''192.168.0.243'' [Some 1, None, Some 10]))
     = [OK, PacketLoss, OK] \<and>
   row_jitter (fst (analyze_lan ''192.168.0.243'' [Some 1, None, Some 10]) ! 2) = 0 \<and>
   row_jitter (fst (analyze_lan ''192.168.0.243'' [Some 1, None, Some 10]) ! 2) \<noteq> \<bar>10 - 1\<bar>"
  by (simp add: analyze_lan_def analyze_loop_def analyze_step_def monitor_init_def Let_def
        SPIKE_THRESHOLD_def)

text \<open>
  Claim C3, amended. For every probe sequence a failed probe yields the status PacketLoss
  with jitter 0 and clears the remembered previous RTT; the first successful sample after a
  loss has jitter 0, records no jitter value, and is classified by its RTT alone (LagSpike
  above the spike threshold, OK otherwise).
\<close>

theorem monitor_loss_resets_jitter:
  "(i < length outs \<and> outs ! i = None \<longrightarrow>
      row_status (fst (analyze_lan target outs) ! i) = PacketLoss \<and>
      row_jitter (fst (analyze_lan target outs) ! i) = 0 \<and>
      prev_rtt (analyze_loop (take (Suc i) outs)) = None) \<and>
   (Suc i < length outs \<and> outs ! i = None \<and> outs ! Suc i = Some r \<longrightarrow>
      row_jitter (fst (analyze_lan target outs) ! Suc i) = 0 \<and>
      row_status (fst (analyze_lan target outs) ! Suc i)
        = (if r > SPIKE_THRESHOLD then LagSpike else OK) \<and>
      jitter_values (mstats (analyze_loop (take (Suc (Suc i)) outs)))
        = jitter_values (mstats (analyze_loop (take (Suc i) outs))))"
proof (intro conjI impI)
  assume a: "i < length outs \<and> outs ! i = None"
  then have row: "fst (analyze_lan target outs) ! i =
      last (log_rows (analyze_step None (analyze_loop (take i outs))))"
    by (simp add: analyze_lan_def Let_def log_rows_nth)
  show "row_status (fst (analyze_lan target outs) ! i) = PacketLoss"
    unfolding row by (simp add: analyze_step_def Let_def)
  show "row_jitter (fst (analyze_lan target outs) ! i) = 0"
    unfolding row by (simp add: analyze_step_def Let_def)
  from a show "prev_rtt (analyze_loop (take (Suc i) outs)) = None"
    by (simp add: prev_rtt_loop take_Suc_conv_app_nth)
next
  assume a: "Suc i < length outs \<and> outs ! i = None \<and> outs ! Suc i = Some r"
  then have prev: "prev_rtt (analyze_loop (take (Suc i) outs)) = None"
    by (simp add: prev_rtt_loop take_Suc_conv_app_nth)
  from a have row: "fst (analyze_lan target outs) ! Suc i =
      last (log_rows (analyze_step (Some r) (analyze_loop (take (Suc i) outs))))"
    by (simp add: analyze_lan_def Let_def log_rows_nth)
  show "row_jitter (fst (analyze_lan target outs) ! Suc i) = 0"
    unfolding row by (simp add: analyze_step_def Let_def prev)
  show "row_status (fst (analyze_lan target outs) ! Suc i)
        = (if r > SPIKE_THRESHOLD then LagSpike else OK)"
    unfolding row by (simp add: analyze_step_def Let_def prev)
  from a have "take (Suc (Suc i)) outs = take (Suc i) outs @ [Some r]"
    by (simp add: take_Suc_conv_app_nth [of "Suc i"])
  then show "jitter_values (mstats (analyze_loop (take (Suc (Suc i)) outs)))
        = jitter_values (mstats (analyze_loop (take (Suc i) outs)))"
    by (simp add: analyze_loop_snoc analyze_step_def Let_def prev)
qed

theorem monitor_loss_resets_jitter_witness:
  "(1::nat) < length [Some 1, None, Some (10::real)] \<and>
   [Some 1, None, Some (10::real)] ! 1 = None \<and>
   Suc 1 < length [Some 1, None, Some (10::real)] \<and>
   [Some 1, None, Some (10::real)] ! Suc 1 = Some 10 \<and>
   row_status (fst (analyze_lan ''192.168.0.243'' [Some 1, None, Some 10]) ! 1) = PacketLoss \<and>
   row_jitter (fst (analyze_lan ''192.168.0.243'' [Some 1, None, Some 10]) ! 1) = 0 \<and>
   row_jitter (fst (analyze_lan ''192.168.0.243'' [Some 1, None, Some 10]) ! Suc 1) = 0 \<and>
   row_status (fst (analyze_lan ''192.168.0.243'' [Some 1, None, Some 10]) ! Suc 1) = OK"
proof -
  have h1: "(1::nat) < length [Some 1, None, Some (10::real)] \<and>
            [Some 1, None, Some (10::real)] ! 1 = None"
    by simp
  have h2: "Suc 1 < length [Some 1, None, Some (10::real)] \<and>
            [Some 1, None, Some (10::real)] ! 1 = None \<and>
            [Some 1, None, Some (10::real)] ! Suc 1 = Some 10"
    by simp
  have h3: "\<not> (10::real) > SPIKE_THRESHOLD"
    by (simp add: SPIKE_THRESHOLD_def)
  note t = monitor_loss_resets_jitter
             [of 1 "[Some 1, None, Some 10]" "''192.168.0.243''" 10]
  from t h1 have c1:
    "row_status (fst (analyze_lan ''192.168.0.243'' [Some 1, None, Some 10]) ! 1) = PacketLoss \<and>
     row_jitter (fst (analyze_lan ''192.168.0.243'' [Some 1, None, Some 10]) ! 1) = 0"
    by blast
  from t h2 have c2:
    "row_jitter (fst (analyze_lan ''192.168.0.243'' [Some 1, None, Some 10]) ! Suc 1) = 0 \<and>
     row_status (fst (analyze_lan ''192.168.0.243'' [Some 1, None, Some 10]) ! Suc 1)
       = (if 10 > SPIKE_THRESHOLD then LagSpike else OK)"
    by blast
  from c2 h3 have c3:
    "row_status (fst (analyze_lan ''192.168.0.243'' [Some 1, None, Some 10]) ! Suc 1) = OK"
    by simp
  from h1 h2 c1 c2 c3 show ?thesis by blast
qed

text \<open>
  Claim C8. When the monitor is cancelled before any probe has been counted, it emits no
  machine-readable summary and raises nothing; the summary computation never fails, and it
  is skipped exactly when no probe was counted.
\<close>

theorem monitor_no_summary_without_probes:
  "analyze_lan target [] = ([], Inr None) \<and>
   (\<exists>s. snd (analyze_lan target outs) = Inr s \<and> (s = None \<longleftrightarrow> outs = []))"
proof
  show "analyze_lan target [] = ([], Inr None)"
    by (simp add: analyze_lan_def analyze_loop_def monitor_init_def summary_def)
  show "\<exists>s. snd (analyze_lan target outs) = Inr s \<and> (s = None \<longleftrightarrow> outs = [])"
    using summary_defined [of target "mstats (analyze_loop outs)"]
    by (simp add: analyze_lan_def Let_def sent_loop)
qed

section \<open>Properties of a batch of probes\<close>

lemma ping_loop_eq:
  "ping_loop outs is (rs, lost) =
     (rs @ List.map_filter (reply outs) is, lost + length (filter (\<lambda>i. reply outs i = None) is))"
  by (induction "is" arbitrary: rs lost) (auto simp: List.map_filter_simps split: option.split)

lemma map_filter_count:
  "length (List.map_filter f xs) + length (filter (\<lambda>i. f i = None) xs) = length xs"
  by (induction xs) (auto simp: List.map_filter_simps split: option.split)

lemma map_filter_empty_iff:
  "List.map_filter f xs = [] \<longleftrightarrow> (\<forall>x\<in>set xs. f x = None)"
  by (induction xs) (auto simp: List.map_filter_simps split: option.split)

lemma jitter_list_map2:
  "jitter_list rs = map2 (\<lambda>a b. \<bar>fsub b a\<bar>) rs (tl rs)"
proof (rule nth_equalityI)
  show "length (jitter_list rs) = length (map2 (\<lambda>a b. \<bar>fsub b a\<bar>) rs (tl rs))"
    by (simp add: jitter_list_def)
next
  fix i assume "i < length (jitter_list rs)"
  then have i: "Suc i < length rs" by (simp add: jitter_list_def)
  then have "[1..<length rs] ! i = Suc i"
    using nth_upt [of 1 i "length rs"] by simp
  with i show "jitter_list rs ! i = map2 (\<lambda>a b. \<bar>fsub b a\<bar>) rs (tl rs) ! i"
    by (simp add: jitter_list_def nth_tl)
qed

lemma jitter_list_empty_iff: "jitter_list rs = [] \<longleftrightarrow> length rs < 2"
  by (auto simp: jitter_list_def)

lemma length_jitter_list: "length (jitter_list rs) = length rs - 1"
  by (simp add: jitter_list_def)

lemma run_ping_test_Inr:
  "run_ping_test label sv outs =
    (let rs = List.map_filter (reply outs) [0..<PINGS_PER_TEST];
         lost = length (filter (\<lambda>i. reply outs i = None) [0..<PINGS_PER_TEST]);
         sc = length (filter (\<lambda>r. r > SPIKE_THRESHOLD) rs) in
     if rs \<noteq> [] then
       Inr \<lparr>setting_name = label, setting_value = sv,
            packets_sent = PINGS_PER_TEST, packets_lost = lost,
            avg_latency_ms = py_round 2 (to_double (sum_list rs / real (length rs))),
            max_latency_ms = py_round 2 (fold max (tl rs) (hd rs)),
            min_latency_ms = py_round 2 (fold min (tl rs) (hd rs)),
            avg_jitter_ms = (if length rs < 2 then 0
               else py_round 2 (to_double (sum_list (jitter_list rs) / real (length rs - 1)))),
            spike_count = sc,
            spike_percentage = py_round 1 (fmul (to_double (real sc / real (length rs))) 100),
            raw_rtts = rs\<rparr>
     else
       Inr \<lparr>setting_name = label, setting_value = sv,
            packets_sent = PINGS_PER_TEST, packets_lost = lost,
            avg_latency_ms = 0, max_latency_ms = 0, min_latency_ms = 0,
            avg_jitter_ms = 0, spike_count = 0, spike_percentage = 0,
            raw_rtts = []\<rparr>)"
  by (cases "List.map_filter (reply outs) [0..<PINGS_PER_TEST]")
     (simp_all add: run_ping_test_def ping_loop_eq Let_def then_res_def mean_def py_max_def
        py_min_def py_div_def jitter_list_empty_iff length_jitter_list)

text \<open>
  Claim C10. \<^verbatim>\<open>run_ping_test\<close> returns a result for every sequence of probe outcomes and
  raises nothing (no division by zero in particular). The result has
  \<open>packets_sent = PINGS_PER_TEST\<close>, the lost probes and the recorded RTTs add up to
  \<open>packets_sent\<close>, and the RTTs are the successful outcomes in order. When no probe
  succeeds, the latencies, the jitter, the spike count and the spike percentage are 0 and
  the RTT list is empty. The average jitter is the mean, as a double rounded to 2 decimals,
  of the absolute float differences of consecutive successful RTTs (a loss in between does
  not interrupt the sequence); the spike percentage is the float quotient of the spike
  count by the number of successful probes, times 100 in floats, rounded to 1 decimal; the
  average latency is the mean of the successful RTTs as a double rounded to 2 decimals.
\<close>

theorem run_ping_test_total:
  "\<exists>r. run_ping_test label sv outs = Inr r \<and>
     packets_sent r = PINGS_PER_TEST \<and>
     packets_lost r + length (raw_rtts r) = packets_sent r \<and>
     raw_rtts r = List.map_filter (reply outs) [0..<PINGS_PER_TEST] \<and>
     ((\<forall>i<PINGS_PER_TEST. reply outs i = None) \<longrightarrow>
        raw_rtts r = [] \<and> avg_latency_ms r = 0 \<and> min_latency_ms r = 0 \<and>
        max_latency_ms r = 0 \<and> avg_jitter_ms r = 0 \<and> spike_count r = 0 \<and>
        spike_percentage r = 0) \<and>
     avg_jitter_ms r =
       (if length (raw_rtts r) < 2 then 0
        else py_round 2 (to_double
               (sum_list (map2 (\<lambda>a b. \<bar>fsub b a\<bar>) (raw_rtts r) (tl (raw_rtts r)))
                  / real (length (raw_rtts r) - 1)))) \<and>
     spike_count r = length (filter (\<lambda>x. x > SPIKE_THRESHOLD) (raw_rtts r)) \<and>
     (raw_rtts r \<noteq> [] \<longrightarrow>
        spike_percentage r
          = py_round 1 (fmul (to_double (real (spike_count r) / real (length (raw_rtts r)))) 100) \<and>
        avg_latency_ms r
          = py_round 2 (to_double (sum_list (raw_rtts r) / real (length (raw_rtts r)))))"
proof -
  have cnt: "length (filter (\<lambda>i. reply outs i = None) [0..<PINGS_PER_TEST]) +
             length (List.map_filter (reply outs) [0..<PINGS_PER_TEST]) = PINGS_PER_TEST"
    using map_filter_count [of "reply outs" "[0..<PINGS_PER_TEST]"] by simp
  have none: "(\<forall>i<PINGS_PER_TEST. reply outs i = None) \<Longrightarrow>
              List.map_filter (reply outs) [0..<PINGS_PER_TEST] = []"
    by (simp add: map_filter_empty_iff)
  show ?thesis
  proof (cases "List.map_filter (reply outs) [0..<PINGS_PER_TEST] = []")
    case True
    with cnt show ?thesis
      by (simp add: run_ping_test_Inr Let_def)
  next
    case False
    with none have "\<not> (\<forall>i<PINGS_PER_TEST. reply outs i = None)" by blast
    with False cnt show ?thesis
      by (simp add: run_ping_test_Inr Let_def jitter_list_map2 [symmetric])
  qed
qed

theorem run_ping_test_total_witness:
  "list_all (\<lambda>i. reply [None, None] i = None) [0..<PINGS_PER_TEST] \<and>
   run_ping_test ''Baseline'' ''current'' [None, None] =
     Inr \<lparr>setting_name = ''Baseline'', setting_value = ''current'',
          packets_sent = 200, packets_lost = 200,
          avg_latency_ms = 0, max_latency_ms = 0, min_latency_ms = 0,
          avg_jitter_ms = 0, spike_count = 0, spike_percentage = 0,
          raw_rtts = []\<rparr>"
proof -
  have h: "\<forall>i<PINGS_PER_TEST. reply [None, None] i = None"
    by (simp add: reply_def nth_Cons split: nat.split)
  from run_ping_test_total [of "''Baseline''" "''current''" "[None, None]"] h
  obtain r where r: "run_ping_test ''Baseline'' ''current'' [None, None] = Inr r"
    "packets_sent r = PINGS_PER_TEST" "packets_lost r + length (raw_rtts r) = packets_sent r"
    "raw_rtts r = []" "avg_latency_ms r = 0" "min_latency_ms r = 0" "max_latency_ms r = 0"
    "avg_jitter_ms r = 0" "spike_count r = 0" "spike_percentage r = 0"
    by blast
  have nm: "setting_name r = ''Baseline''" "setting_value r = ''current''"
    using r(1) by (auto simp: run_ping_test_Inr Let_def split: if_splits)
  have "r = \<lparr>setting_name = ''Baseline'', setting_value = ''current'',
          packets_sent = 200, packets_lost = 200,
          avg_latency_ms = 0, max_latency_ms = 0, min_latency_ms = 0,
          avg_jitter_ms = 0, spike_count = 0, spike_percentage = 0,
          raw_rtts = []\<rparr>"
    using r nm by (simp add: PINGS_PER_TEST_def)
  with r(1) h show ?thesis by (simp add: list_all_iff)
qed

lemma run_ping_test_example:
  "run_ping_test ''AWDL'' ''disabled'' [Some 5, None, Some 20, Some 7] =
     Inr \<lparr>setting_name = ''AWDL'', setting_value = ''disabled'',
          packets_sent = 200, packets_lost = 197,
          avg_latency_ms = to_double (1067 / 100), max_latency_ms = 20, min_latency_ms = 5,
          avg_jitter_ms = 14, spike_count = 1, spike_percentage = to_double (333 / 10),
          raw_rtts = [5, 20, 7]\<rparr>"
proof -
  have rs: "List.map_filter (reply [Some 5, None, Some 20, Some 7]) [0..<PINGS_PER_TEST]
              = [5, 20, 7::real]"
    by code_simp
  have lost: "length (filter (\<lambda>i. reply [Some 5, None, Some 20, Some (7::real)] i = None)
                [0..<PINGS_PER_TEST]) = 197"
    by code_simp
  have f: "fsub 20 5 = 15" "fsub 7 20 = - 13" "to_double 14 = 14"
    "py_round 2 14 = 14" "py_round 2 20 = 20" "py_round 2 5 = 5"
    "py_round 2 (to_double (32 / 3)) = to_double (1067 / 100)"
    "py_round 1 (fmul (to_double (1 / 3)) 100) = to_double (333 / 10)"
    by code_simp+
  have "run_ping_test ''AWDL'' ''disabled'' [Some 5, None, Some 20, Some 7] =
     Inr \<lparr>setting_name = ''AWDL'', setting_value = ''disabled'',
          packets_sent = PINGS_PER_TEST, packets_lost = 197,
          avg_latency_ms = to_double (1067 / 100), max_latency_ms = 20, min_latency_ms = 5,
          avg_jitter_ms = 14, spike_count = 1, spike_percentage = to_double (333 / 10),
          raw_rtts = [5, 20, 7]\<rparr>"
    using f
    by (simp add: run_ping_test_Inr Let_def rs lost jitter_list_map2 SPIKE_THRESHOLD_def)
  then show ?thesis
    by (simp add: PINGS_PER_TEST_def)
qed

text \<open>The rounding follows the interpreter where it differs from exact arithmetic: 23
  spikes in 80 replies are reported as 28.7 per cent (the float product is just below
  28.75), and the replies 1.0 ms and 1.015 ms have the average jitter 0.01 ms (the float
  difference is just below 0.015).\<close>

lemma run_ping_test_spike_rounding:
  "spike_percentage (projr (run_ping_test label sv
      (replicate 23 (Some 20) @ replicate 57 (Some 5)))) = to_double (287 / 10)"
proof -
  have rs: "List.map_filter (reply (replicate 23 (Some 20) @ replicate 57 (Some 5)))
              [0..<PINGS_PER_TEST] = replicate 23 20 @ replicate 57 (5::real)"
    by code_simp
  have f: "py_round 1 (fmul (to_double (23 / 80)) 100) = to_double (287 / 10)"
    by code_simp
  show ?thesis
    using f by (simp add: run_ping_test_Inr Let_def rs SPIKE_THRESHOLD_def)
qed

lemma run_ping_test_jitter_rounding:
  "avg_jitter_ms (projr (run_ping_test label sv
      [Some 1, Some (to_double (1015 / 1000))])) = to_double (1 / 100)"
proof -
  define d where "d = to_double (1015 / 1000)"
  have rs: "List.map_filter (reply [Some 1, Some d]) [0..<PINGS_PER_TEST] = [1, d]"
    by code_simp
  have f: "py_round 2 (to_double \<bar>fsub d 1\<bar>) = to_double (1 / 100)"
    unfolding d_def by code_simp
  have "avg_jitter_ms (projr (run_ping_test label sv [Some 1, Some d])) = to_double (1 / 100)"
    using f by (simp add: run_ping_test_Inr Let_def rs jitter_list_map2)
  then show ?thesis
    unfolding d_def .
qed

section \<open>Properties of the report\<close>

lemma fold_min_key_props:
  fixes key :: "'a \<Rightarrow> real"
  shows "\<exists>i<length (x # xs).
           fold (\<lambda>y b. if key y < key b then y else b) xs x = (x # xs) ! i \<and>
           (\<forall>j<length (x # xs). key ((x # xs) ! i) \<le> key ((x # xs) ! j)) \<and>
           (\<forall>j<i. key ((x # xs) ! i) < key ((x # xs) ! j))"
proof (induction xs rule: rev_induct)
  case Nil
  show ?case by simp
next
  case (snoc y xs)
  let ?f = "\<lambda>y b. if key y < key b then y else b"
  let ?b = "fold ?f xs x"
  from snoc obtain i where i: "i < length (x # xs)" "?b = (x # xs) ! i"
    "\<forall>j<length (x # xs). key ((x # xs) ! i) \<le> key ((x # xs) ! j)"
    "\<forall>j<i. key ((x # xs) ! i) < key ((x # xs) ! j)"
    by blast
  have nth_old: "\<And>j. j < length (x # xs) \<Longrightarrow> (x # xs @ [y]) ! j = (x # xs) ! j"
    by (metis append_Cons nth_append)
  have nth_new: "(x # xs @ [y]) ! length (x # xs) = y"
    by (metis append_Cons nth_append_length)
  show ?case
  proof (cases "key y < key ?b")
    case True
    have "fold ?f (xs @ [y]) x = (x # xs @ [y]) ! length (x # xs)"
      using True nth_new by simp
    moreover have "\<forall>j<length (x # xs @ [y]). key ((x # xs @ [y]) ! length (x # xs)) \<le> key ((x # xs @ [y]) ! j)"
    proof (intro allI impI)
      fix j assume "j < length (x # xs @ [y])"
      then consider "j < length (x # xs)" | "j = length (x # xs)" by fastforce
      then show "key ((x # xs @ [y]) ! length (x # xs)) \<le> key ((x # xs @ [y]) ! j)"
      proof cases
        case 1
        with i(2,3) True nth_old [OF 1] show ?thesis
          unfolding nth_new by force
      next
        case 2
        then show ?thesis by simp
      qed
    qed
    moreover have "\<forall>j<length (x # xs). key ((x # xs @ [y]) ! length (x # xs)) < key ((x # xs @ [y]) ! j)"
    proof (intro allI impI)
      fix j assume j: "j < length (x # xs)"
      with i(2,3) True nth_old [OF j] show "key ((x # xs @ [y]) ! length (x # xs)) < key ((x # xs @ [y]) ! j)"
        unfolding nth_new by force
    qed
    ultimately show ?thesis
      by (intro exI [of _ "length (x # xs)"]) simp
  next
    case False
    have "fold ?f (xs @ [y]) x = (x # xs @ [y]) ! i"
      using False i(1,2) nth_old [OF i(1)] by simp
    moreover have "\<forall>j<length (x # xs @ [y]). key ((x # xs @ [y]) ! i) \<le> key ((x # xs @ [y]) ! j)"
    proof (intro allI impI)
      fix j assume "j < length (x # xs @ [y])"
      then consider "j < length (x # xs)" | "j = length (x # xs)" by fastforce
      then show "key ((x # xs @ [y]) ! i) \<le> key ((x # xs @ [y]) ! j)"
      proof cases
        case 1
        with i(1,3) nth_old [OF 1] nth_old [OF i(1)] show ?thesis by simp
      next
        case 2
        with False i(1,2) nth_old [OF i(1)] nth_new show ?thesis by simp
      qed
    qed
    moreover have "\<forall>j<i. key ((x # xs @ [y]) ! i) < key ((x # xs @ [y]) ! j)"
    proof (intro allI impI)
      fix j assume j: "j < i"
      with i(1) have j': "j < length (x # xs)" by simp
      from j i(4) nth_old [OF j'] nth_old [OF i(1)]
      show "key ((x # xs @ [y]) ! i) < key ((x # xs @ [y]) ! j)" by simp
    qed
    ultimately show ?thesis
      using i(1) by (intro exI [of _ i]) simp
  qed
qed

lemma min_key_props:
  fixes key :: "'a \<Rightarrow> real"
  assumes "xs \<noteq> []"
  shows "\<exists>i<length xs. min_key key xs = Inr (xs ! i) \<and>
           (\<forall>j<length xs. key (xs ! i) \<le> key (xs ! j)) \<and>
           (\<forall>j<i. key (xs ! i) < key (xs ! j))"
proof -
  from assms obtain x r where xs: "xs = x # r" by (cases xs) auto
  show ?thesis
    unfolding xs min_key_def using fold_min_key_props [where key = key and x = x and xs = r] by simp
qed


lemma generate_report_valid:
  assumes "filter (\<lambda>r. avg_latency_ms r > 0) xs \<noteq> []"
  shows "\<exists>rep. generate_report xs = Inr rep \<and>
     recommendations rep =
       map (\<lambda>r. \<lparr>rec_setting = setting_name r,
                  rec_action = ''Set to '' @ setting_value r,
                  spike_reduction =
                    fmt_fixed 1 (fsub (spike_percentage (hd xs)) (spike_percentage r)) @ ''%'',
                  jitter_change =
                    fmt_fixed 2 (fsub (avg_jitter_ms (hd xs)) (avg_jitter_ms r)) @ ''ms''\<rparr>)
           (filter (\<lambda>r. fsub (spike_percentage (hd xs)) (spike_percentage r) > 5) (tl xs))"
proof -
  let ?v = "filter (\<lambda>r. avg_latency_ms r > 0) xs"
  from min_key_props [OF assms, of avg_latency_ms]
  obtain a where a: "min_key avg_latency_ms ?v = Inr a" by blast
  from min_key_props [OF assms, of spike_percentage]
  obtain b where b: "min_key spike_percentage ?v = Inr b" by blast
  from min_key_props [OF assms, of avg_jitter_ms]
  obtain c where c: "min_key avg_jitter_ms ?v = Inr c" by blast
  from assms obtain x r where res: "xs = x # r" by (cases xs) auto
  have "concat (map (\<lambda>result.
                      let improvement = fsub (spike_percentage x) (spike_percentage result) in
                      if improvement > 5 then
                        [\<lparr>rec_setting = setting_name result,
                          rec_action = ''Set to '' @ setting_value result,
                          spike_reduction = fmt_fixed 1 improvement @ ''%'',
                          jitter_change =
                            fmt_fixed 2 (fsub (avg_jitter_ms x) (avg_jitter_ms result)) @ ''ms''\<rparr>]
                      else []) r) =
        map (\<lambda>r. \<lparr>rec_setting = setting_name r,
                  rec_action = ''Set to '' @ setting_value r,
                  spike_reduction =
                    fmt_fixed 1 (fsub (spike_percentage x) (spike_percentage r)) @ ''%'',
                  jitter_change =
                    fmt_fixed 2 (fsub (avg_jitter_ms x) (avg_jitter_ms r)) @ ''ms''\<rparr>)
           (filter (\<lambda>r. fsub (spike_percentage x) (spike_percentage r) > 5) r)"
    by (induction r) (simp_all add: Let_def)
  then show ?thesis
    using assms a b c unfolding generate_report_def Let_def
    by (simp add: then_res_def res)
qed

lemma generate_report_invalid:
  assumes "filter (\<lambda>r. avg_latency_ms r > 0) xs = []"
  shows "generate_report xs = Inr \<lparr>rep_analysis = None, recommendations = []\<rparr>"
  using assms by (simp add: generate_report_def)

lemma member_le_sum_list_real:
  fixes xs :: "real list"
  shows "\<forall>y\<in>set xs. 0 \<le> y \<Longrightarrow> x \<in> set xs \<Longrightarrow> x \<le> sum_list xs"
proof (induction xs)
  case Nil
  then show ?case by simp
next
  case (Cons a xs)
  then have nn: "0 \<le> a" "0 \<le> sum_list xs" by (auto intro: sum_list_nonneg)
  from Cons.prems(2) consider "x = a" | "x \<in> set xs" by auto
  then show ?case
  proof cases
    case 1 with nn show ?thesis by simp
  next
    case 2
    with Cons have "x \<le> sum_list xs" by simp
    with nn show ?thesis by simp
  qed
qed

lemma set_map_filter_reply:
  "x \<in> set (List.map_filter (reply outs) is) \<Longrightarrow> Some x \<in> set outs"
  by (auto simp: List.map_filter_def reply_def split: if_splits) (metis nth_mem)

lemma length_map_filter_le: "length (List.map_filter f xs) \<le> length xs"
  by (simp add: List.map_filter_def)

lemma measured_spike_nonneg:
  "0 \<le> spike_percentage (projr (run_ping_test label sv outs))"
proof -
  have "0 \<le> fmul (to_double (real n / real k)) 100" for n k :: nat
    unfolding fmul_def by (intro to_double_nonneg mult_nonneg_nonneg) simp_all
  then show ?thesis
    by (simp add: run_ping_test_Inr Let_def py_round_nonneg)
qed

lemma measured_spike_valid:
  assumes nonneg: "\<forall>x. Some x \<in> set outs \<longrightarrow> 0 \<le> x"
    and sp: "0 < spike_percentage (projr (run_ping_test label sv outs))"
  shows "0 < avg_latency_ms (projr (run_ping_test label sv outs))"
proof -
  let ?rs = "List.map_filter (reply outs) [0..<PINGS_PER_TEST]"
  have z: "py_round 1 (fmul (to_double 0) 100) = 0"
    by (simp add: fmul_def to_double_zero py_round_zero)
  have ne: "?rs \<noteq> []"
    using sp by (auto simp: run_ping_test_Inr Let_def split: if_splits)
  have "filter (\<lambda>r. r > SPIKE_THRESHOLD) ?rs \<noteq> []"
    using sp ne z by (auto simp: run_ping_test_Inr Let_def split: if_splits)
  then obtain x where x: "x \<in> set ?rs" "x > SPIKE_THRESHOLD"
    by (metis (mono_tags, lifting) filter_False)
  have nn: "\<forall>y\<in>set ?rs. 0 \<le> y"
    using nonneg set_map_filter_reply by blast
  from member_le_sum_list_real [OF nn x(1)] x(2) have s: "15 < sum_list ?rs"
    by (simp add: SPIKE_THRESHOLD_def)
  have len: "0 < length ?rs" "length ?rs \<le> 200"
    using ne length_map_filter_le [of "reply outs" "[0..<PINGS_PER_TEST]"]
    by (simp_all add: PINGS_PER_TEST_def)
  have "real (length ?rs) * 3 \<le> sum_list ?rs * 40"
  proof -
    from len have "real (length ?rs) \<le> 200" by simp
    with s show ?thesis by linarith
  qed
  then have m: "3 / 40 \<le> sum_list ?rs / real (length ?rs)"
    using len(1) by (simp add: field_simps)
  with pow2_tiny have "pow2 (- 1022) \<le> sum_list ?rs / real (length ?rs)"
    by linarith
  from to_double_lower [OF this]
  have "sum_list ?rs / real (length ?rs) / 2 \<le> to_double (sum_list ?rs / real (length ?rs))" .
  moreover from m have "1 / 100 \<le> sum_list ?rs / real (length ?rs) / 2"
    by simp
  ultimately have "1 / 100 \<le> to_double (sum_list ?rs / real (length ?rs))"
    by (rule order_trans [rotated])
  from py_round_2_pos [OF this] show ?thesis
    using ne by (simp add: run_ping_test_Inr Let_def)
qed

lemma fmt_25: "fsub 30 5 = 25" "fmt_fixed 1 25 = ''25.0''"
  by code_simp+

lemma fmt_8: "fsub 10 2 = 8" "fmt_fixed 2 8 = ''8.00''"
  by code_simp+

text \<open>
  Claim C5. On the results that the orchestrator has measured (the probes reply with
  non-negative times), \<^verbatim>\<open>generate_report\<close> emits a recommendation for a non-baseline
  experiment exactly when the baseline's spike percentage minus the experiment's, as the
  float subtraction computes it, is strictly greater than 5, in the order of the
  experiments; the recommendation carries the setting name, the value to set, the spike
  reduction with one decimal and the jitter delta (again a float difference) with two. A
  baseline with spike percentage 30 and jitter 10 (and a measured latency) and an
  experiment settingX with spike percentage 5 and jitter 2 give one recommendation, for
  settingX, with the spike reduction 25.0 percent.
\<close>

theorem report_recommendations:
  "((\<forall>(label, sv, outs) \<in> set inps. \<forall>x. Some x \<in> set outs \<longrightarrow> 0 \<le> x) \<longrightarrow>
    (\<exists>rep. generate_report (measured inps) = Inr rep \<and>
       recommendations rep =
         (case measured inps of
            [] \<Rightarrow> []
          | b # rest \<Rightarrow>
              map (\<lambda>r. \<lparr>rec_setting = setting_name r,
                         rec_action = ''Set to '' @ setting_value r,
                         spike_reduction =
                           fmt_fixed 1 (fsub (spike_percentage b) (spike_percentage r)) @ ''%'',
                         jitter_change =
                           fmt_fixed 2 (fsub (avg_jitter_ms b) (avg_jitter_ms r)) @ ''ms''\<rparr>)
                  (filter (\<lambda>r. fsub (spike_percentage b) (spike_percentage r) > 5) rest)))) \<and>
   (avg_latency_ms b > 0 \<and> spike_percentage b = 30 \<and> avg_jitter_ms b = 10 \<and>
    setting_name x = ''settingX'' \<and> spike_percentage x = 5 \<and> avg_jitter_ms x = 2 \<longrightarrow>
    (\<exists>rep. generate_report [b, x] = Inr rep \<and>
       recommendations rep =
         [\<lparr>rec_setting = ''settingX'', rec_action = ''Set to '' @ setting_value x,
           spike_reduction = ''25.0%'', jitter_change = ''8.00ms''\<rparr>]))"
proof (intro conjI impI)
  assume nonneg: "\<forall>(label, sv, outs) \<in> set inps. \<forall>x. Some x \<in> set outs \<longrightarrow> 0 \<le> x"
  let ?xs = "measured inps"
  let ?mk = "\<lambda>b r. \<lparr>rec_setting = setting_name r,
                         rec_action = ''Set to '' @ setting_value r,
                         spike_reduction =
                           fmt_fixed 1 (fsub (spike_percentage b) (spike_percentage r)) @ ''%'',
                         jitter_change =
                           fmt_fixed 2 (fsub (avg_jitter_ms b) (avg_jitter_ms r)) @ ''ms''\<rparr>"
  have wf: "\<forall>r\<in>set ?xs. 0 \<le> spike_percentage r \<and> (0 < spike_percentage r \<longrightarrow> 0 < avg_latency_ms r)"
    using nonneg measured_spike_nonneg measured_spike_valid
    by (fastforce simp: measured_def)
  show "\<exists>rep. generate_report ?xs = Inr rep \<and>
       recommendations rep =
         (case ?xs of [] \<Rightarrow> []
          | b # rest \<Rightarrow> map (?mk b)
                  (filter (\<lambda>r. fsub (spike_percentage b) (spike_percentage r) > 5) rest))"
  proof (cases "filter (\<lambda>r. avg_latency_ms r > 0) ?xs = []")
    case False
    then have "?xs \<noteq> []" by auto
    then obtain b rest where br: "?xs = b # rest" by (cases ?xs) auto
    from generate_report_valid [OF False] show ?thesis
      by (simp add: br)
  next
    case True
    have "filter (\<lambda>r. fsub (spike_percentage b) (spike_percentage r) > 5) rest = []"
      if br: "?xs = b # rest" for b rest
    proof -
      have "\<not> fsub (spike_percentage b) (spike_percentage r) > 5" if r: "r \<in> set rest" for r
      proof
        assume gt: "fsub (spike_percentage b) (spike_percentage r) > 5"
        from wf br r have nn: "0 \<le> spike_percentage r" by simp
        have "0 < spike_percentage b"
        proof (rule ccontr)
          assume "\<not> 0 < spike_percentage b"
          with nn have "spike_percentage b - spike_percentage r \<le> 0" by linarith
          from to_double_nonpos [OF this] gt show False
            by (simp add: fsub_def)
        qed
        with wf br have "0 < avg_latency_ms b" by simp
        with True br show False by simp
      qed
      then show ?thesis by (simp add: filter_empty_conv)
    qed
    then show ?thesis
      using generate_report_invalid [OF True] by (simp split: list.split)
  qed
next
  assume a: "avg_latency_ms b > 0 \<and> spike_percentage b = 30 \<and> avg_jitter_ms b = 10 \<and>
    setting_name x = ''settingX'' \<and> spike_percentage x = 5 \<and> avg_jitter_ms x = 2"
  then have v: "filter (\<lambda>r. avg_latency_ms r > 0) [b, x] \<noteq> []" by simp
  from generate_report_valid [OF v] a fmt_25 fmt_8
  show "\<exists>rep. generate_report [b, x] = Inr rep \<and>
       recommendations rep =
         [\<lparr>rec_setting = ''settingX'', rec_action = ''Set to '' @ setting_value x,
           spike_reduction = ''25.0%'', jitter_change = ''8.00ms''\<rparr>]"
    by simp
qed

theorem report_recommendations_witness:
  "(\<exists>rep. generate_report (measured
       [(''Baseline'', ''current'',
           [Some 1, Some 16, Some 1, Some 16, Some 1, Some 16, Some 1, Some 1, Some 1, Some 1]),
        (''settingX'', ''disabled'',
           [Some 1, Some 2, Some 1, Some 2, Some 1, Some 2, Some 1, Some 2, Some 1, Some 2,
            Some 1, Some 2, Some 1, Some 2, Some 1, Some 2, Some 1, Some 2, Some 1, Some 21])])
        = Inr rep \<and>
      recommendations rep =
        [\<lparr>rec_setting = ''settingX'', rec_action = ''Set to disabled'',
          spike_reduction = ''25.0%'', jitter_change = ''8.00ms''\<rparr>])"
proof -
  define o1 :: "real option list" where
    "o1 = [Some 1, Some 16, Some 1, Some 16, Some 1, Some 16, Some 1, Some 1, Some 1, Some 1]"
  define o2 :: "real option list" where
    "o2 = [Some 1, Some 2, Some 1, Some 2, Some 1, Some 2, Some 1, Some 2, Some 1, Some 2,
            Some 1, Some 2, Some 1, Some 2, Some 1, Some 2, Some 1, Some 2, Some 1, Some 21]"
  define inps where "inps = [(''Baseline'', ''current'', o1), (''settingX'', ''disabled'', o2)]"
  have h: "\<forall>(label, sv, outs) \<in> set inps. \<forall>x. Some x \<in> set outs \<longrightarrow> 0 \<le> x"
    unfolding inps_def o1_def o2_def by auto
  have rs: "List.map_filter (reply o1) [0..<PINGS_PER_TEST]
              = [1, 16, 1, 16, 1, 16, 1, 1, 1, 1]"
    "List.map_filter (reply o2) [0..<PINGS_PER_TEST]
              = [1, 2, 1, 2, 1, 2, 1, 2, 1, 2, 1, 2, 1, 2, 1, 2, 1, 2, 1, 21]"
    unfolding o1_def o2_def by code_simp+
  have f: "fsub 16 1 = 15" "fsub 1 16 = - 15" "fsub 1 1 = 0" "fsub 2 1 = 1" "fsub 1 2 = - 1"
    "fsub 21 1 = 20" "to_double 10 = 10" "to_double 2 = 2"
    "py_round 2 10 = 10" "py_round 2 2 = 2"
    "py_round 1 (fmul (to_double (3 / 10)) 100) = 30"
    "py_round 1 (fmul (to_double (1 / 20)) 100) = 5"
    by code_simp+
  have sp: "spike_percentage (projr (run_ping_test ''Baseline'' ''current'' o1)) = 30"
    "spike_percentage (projr (run_ping_test ''settingX'' ''disabled'' o2)) = 5"
    using f by (simp_all add: run_ping_test_Inr Let_def rs SPIKE_THRESHOLD_def)
  have jt: "avg_jitter_ms (projr (run_ping_test ''Baseline'' ''current'' o1)) = 10"
    "avg_jitter_ms (projr (run_ping_test ''settingX'' ''disabled'' o2)) = 2"
    using f by (simp_all add: run_ping_test_Inr Let_def rs jitter_list_map2)
  have nm: "setting_name (projr (run_ping_test ''settingX'' ''disabled'' o2)) = ''settingX''"
    "setting_value (projr (run_ping_test ''settingX'' ''disabled'' o2)) = ''disabled''"
    by (simp_all add: run_ping_test_Inr Let_def)
  have m: "measured inps = [projr (run_ping_test ''Baseline'' ''current'' o1),
                            projr (run_ping_test ''settingX'' ''disabled'' o2)]"
    by (simp add: measured_def inps_def)
  from report_recommendations [of inps] h
  obtain rep where rep: "generate_report (measured inps) = Inr rep"
    "recommendations rep =
         (case measured inps of
            [] \<Rightarrow> []
          | b # rest \<Rightarrow>
              map (\<lambda>r. \<lparr>rec_setting = setting_name r,
                         rec_action = ''Set to '' @ setting_value r,
                         spike_reduction =
                           fmt_fixed 1 (fsub (spike_percentage b) (spike_percentage r)) @ ''%'',
                         jitter_change =
                           fmt_fixed 2 (fsub (avg_jitter_ms b) (avg_jitter_ms r)) @ ''ms''\<rparr>)
                  (filter (\<lambda>r. fsub (spike_percentage b) (spike_percentage r) > 5) rest))"
    by blast
  from rep(2) fmt_25 fmt_8 have "recommendations rep =
        [\<lparr>rec_setting = ''settingX'', rec_action = ''Set to disabled'',
          spike_reduction = ''25.0%'', jitter_change = ''8.00ms''\<rparr>]"
    by (simp add: m sp jt nm)
  with rep(1) have "\<exists>rep. generate_report (measured inps) = Inr rep \<and>
      recommendations rep =
        [\<lparr>rec_setting = ''settingX'', rec_action = ''Set to disabled'',
          spike_reduction = ''25.0%'', jitter_change = ''8.00ms''\<rparr>]"
    by blast
  then show ?thesis
    unfolding inps_def o1_def o2_def .
qed

text \<open>The comparison with 5 is the one of the float difference: with the baseline at 8.3
  per cent and an experiment at 3.3 per cent the difference is computed just above 5, and
  a recommendation with the spike reduction 5.0 per cent is emitted.\<close>

lemma report_recommendation_float_boundary:
  assumes "avg_latency_ms b > 0"
    and "spike_percentage b = to_double (83 / 10)"
    and "spike_percentage x = to_double (33 / 10)"
  shows "\<exists>rep. generate_report [b, x] = Inr rep \<and>
           map rec_setting (recommendations rep) = [setting_name x] \<and>
           map spike_reduction (recommendations rep) = [''5.0%'']"
proof -
  define i where "i = fsub (to_double (83 / 10)) (to_double (33 / 10))"
  have i: "i = 5 + 1 / 2 ^ 50"
    unfolding i_def by code_simp
  have f: "i > 5" "fmt_fixed 1 i = ''5.0''"
    unfolding i by code_simp+
  have e: "fsub (spike_percentage b) (spike_percentage x) = i"
    by (simp add: assms i_def)
  from assms have v: "filter (\<lambda>r. avg_latency_ms r > 0) [b, x] \<noteq> []" by simp
  from generate_report_valid [OF v] f show ?thesis
    by (auto simp: e)
qed

lemma measured_valid_has_rtts:
  "r \<in> set (measured inps) \<Longrightarrow> avg_latency_ms r > 0 \<Longrightarrow> raw_rtts r \<noteq> []"
  by (auto simp: measured_def run_ping_test_Inr Let_def split: if_splits)

lemma measured_no_success:
  "\<forall>i<PINGS_PER_TEST. reply outs i = None \<Longrightarrow>
   avg_latency_ms (projr (run_ping_test label sv outs)) = 0"
  by (simp add: run_ping_test_Inr Let_def map_filter_empty_iff)

text \<open>
  Claim C6, as stated, takes the minimum over exactly the experiments with at least one
  successful probe. The experiment AWDL below has a successful probe of 0.004 ms; its
  average latency is reported as 0, the report leaves it out of the candidates, and the
  best average latency is the baseline's 11 ms.
\<close>

theorem report_best_counterexample:
  "raw_rtts (measured [(''Baseline'', ''current'', [Some 10, Some 12]),
                       (''AWDL'', ''disabled'', [Some (to_double (4 / 1000)), None])] ! 1)
     = [to_double (4 / 1000)] \<and>
   avg_latency_ms (measured [(''Baseline'', ''current'', [Some 10, Some 12]),
                             (''AWDL'', ''disabled'', [Some (to_double (4 / 1000)), None])] ! 1)
     = 0 \<and>
   generate_report (measured [(''Baseline'', ''current'', [Some 10, Some 12]),
                             (''AWDL'', ''disabled'', [Some (to_double (4 / 1000)), None])]) =
     Inr \<lparr>rep_analysis = Some
            \<lparr>best_avg_latency = \<lparr>best_setting = ''Baseline'', best_value = 11\<rparr>,
             best_spike_rate = \<lparr>best_setting = ''Baseline'', best_value = 0\<rparr>,
             best_jitter = \<lparr>best_setting = ''Baseline'', best_value = 2\<rparr>\<rparr>,
          recommendations = []\<rparr>"
proof -
  define d where "d = to_double (4 / 1000)"
  define o1 :: "real option list" where "o1 = [Some 10, Some 12]"
  define o2 where "o2 = [Some d, None]"
  define r1 where "r1 = projr (run_ping_test ''Baseline'' ''current'' o1)"
  define r2 where "r2 = projr (run_ping_test ''AWDL'' ''disabled'' o2)"
  have rs: "List.map_filter (reply o1) [0..<PINGS_PER_TEST] = [10, 12]"
    "List.map_filter (reply o2) [0..<PINGS_PER_TEST] = [d]"
    unfolding o1_def o2_def by code_simp+
  have f: "to_double 11 = 11" "py_round 2 11 = 11" "fsub 12 10 = 2" "to_double 2 = 2"
    "py_round 2 2 = 2"
    by code_simp+
  have z: "py_round 1 (fmul (to_double 0) 100) = 0" "fsub 0 0 = 0"
    by (simp_all add: fmul_def fsub_def to_double_zero py_round_zero)
  have g: "py_round 2 (to_double d) = 0" "\<not> 15 < d"
    unfolding d_def by code_simp+
  have a1: "setting_name r1 = ''Baseline''" "avg_latency_ms r1 = 11" "spike_percentage r1 = 0"
    "avg_jitter_ms r1 = 2"
    unfolding r1_def using f z
    by (simp_all add: run_ping_test_Inr Let_def rs jitter_list_map2 SPIKE_THRESHOLD_def)
  have a2: "raw_rtts r2 = [d]" "avg_latency_ms r2 = 0" "spike_percentage r2 = 0"
    unfolding r2_def using g z
    by (simp_all add: run_ping_test_Inr Let_def rs SPIKE_THRESHOLD_def)
  have m: "measured [(''Baseline'', ''current'', o1), (''AWDL'', ''disabled'', o2)] = [r1, r2]"
    by (simp add: measured_def r1_def r2_def)
  have rep: "generate_report [r1, r2] =
     Inr \<lparr>rep_analysis = Some
            \<lparr>best_avg_latency = \<lparr>best_setting = ''Baseline'', best_value = 11\<rparr>,
             best_spike_rate = \<lparr>best_setting = ''Baseline'', best_value = 0\<rparr>,
             best_jitter = \<lparr>best_setting = ''Baseline'', best_value = 2\<rparr>\<rparr>,
          recommendations = []\<rparr>"
    by (simp add: generate_report_def Let_def min_key_def then_res_def a1 a2 z)
  have "raw_rtts (measured [(''Baseline'', ''current'', o1),
                            (''AWDL'', ''disabled'', o2)] ! 1) = [d] \<and>
   avg_latency_ms (measured [(''Baseline'', ''current'', o1),
                             (''AWDL'', ''disabled'', o2)] ! 1) = 0 \<and>
   generate_report (measured [(''Baseline'', ''current'', o1),
                             (''AWDL'', ''disabled'', o2)]) =
     Inr \<lparr>rep_analysis = Some
            \<lparr>best_avg_latency = \<lparr>best_setting = ''Baseline'', best_value = 11\<rparr>,
             best_spike_rate = \<lparr>best_setting = ''Baseline'', best_value = 0\<rparr>,
             best_jitter = \<lparr>best_setting = ''Baseline'', best_value = 2\<rparr>\<rparr>,
          recommendations = []\<rparr>"
    unfolding m using a2 rep by simp
  then show ?thesis
    unfolding o1_def o2_def d_def .
qed

text \<open>
  Claim C6, amended. The three best fields select the minimum of the average latency, of
  the spike percentage and of the average jitter over exactly the experiments whose
  reported average latency is greater than 0; among several minimal ones the first in
  sequence order is selected, and there is no analysis when no experiment qualifies.
  Every measured experiment that qualifies had a successful probe, and an experiment
  without a successful probe never qualifies.
\<close>

theorem report_best_selection:
  "(\<exists>rep. generate_report xs = Inr rep \<and>
      (filter (\<lambda>r. avg_latency_ms r > 0) xs = [] \<longrightarrow> rep_analysis rep = None) \<and>
      (filter (\<lambda>r. avg_latency_ms r > 0) xs \<noteq> [] \<longrightarrow>
         (\<exists>a b c.
            a < length (filter (\<lambda>r. avg_latency_ms r > 0) xs) \<and>
            b < length (filter (\<lambda>r. avg_latency_ms r > 0) xs) \<and>
            c < length (filter (\<lambda>r. avg_latency_ms r > 0) xs) \<and>
            rep_analysis rep = Some
              \<lparr>best_avg_latency =
                 \<lparr>best_setting = setting_name (filter (\<lambda>r. avg_latency_ms r > 0) xs ! a),
                  best_value = avg_latency_ms (filter (\<lambda>r. avg_latency_ms r > 0) xs ! a)\<rparr>,
               best_spike_rate =
                 \<lparr>best_setting = setting_name (filter (\<lambda>r. avg_latency_ms r > 0) xs ! b),
                  best_value = spike_percentage (filter (\<lambda>r. avg_latency_ms r > 0) xs ! b)\<rparr>,
               best_jitter =
                 \<lparr>best_setting = setting_name (filter (\<lambda>r. avg_latency_ms r > 0) xs ! c),
                  best_value = avg_jitter_ms (filter (\<lambda>r. avg_latency_ms r > 0) xs ! c)\<rparr>\<rparr> \<and>
            (\<forall>j<length (filter (\<lambda>r. avg_latency_ms r > 0) xs).
               avg_latency_ms (filter (\<lambda>r. avg_latency_ms r > 0) xs ! a)
                 \<le> avg_latency_ms (filter (\<lambda>r. avg_latency_ms r > 0) xs ! j) \<and>
               spike_percentage (filter (\<lambda>r. avg_latency_ms r > 0) xs ! b)
                 \<le> spike_percentage (filter (\<lambda>r. avg_latency_ms r > 0) xs ! j) \<and>
               avg_jitter_ms (filter (\<lambda>r. avg_latency_ms r > 0) xs ! c)
                 \<le> avg_jitter_ms (filter (\<lambda>r. avg_latency_ms r > 0) xs ! j)) \<and>
            (\<forall>j<a. avg_latency_ms (filter (\<lambda>r. avg_latency_ms r > 0) xs ! a)
                     < avg_latency_ms (filter (\<lambda>r. avg_latency_ms r > 0) xs ! j)) \<and>
            (\<forall>j<b. spike_percentage (filter (\<lambda>r. avg_latency_ms r > 0) xs ! b)
                     < spike_percentage (filter (\<lambda>r. avg_latency_ms r > 0) xs ! j)) \<and>
            (\<forall>j<c. avg_jitter_ms (filter (\<lambda>r. avg_latency_ms r > 0) xs ! c)
                     < avg_jitter_ms (filter (\<lambda>r. avg_latency_ms r > 0) xs ! j))))) \<and>
   (\<forall>r\<in>set (filter (\<lambda>r. avg_latency_ms r > 0) (measured inps)). raw_rtts r \<noteq> []) \<and>
   ((\<forall>i<PINGS_PER_TEST. reply outs i = None) \<longrightarrow>
      projr (run_ping_test label sv outs) \<notin> set (filter (\<lambda>r. avg_latency_ms r > 0) ys))"
proof (intro conjI)
  let ?v = "filter (\<lambda>r. avg_latency_ms r > 0) xs"
  show "\<exists>rep. generate_report xs = Inr rep \<and>
      (?v = [] \<longrightarrow> rep_analysis rep = None) \<and>
      (?v \<noteq> [] \<longrightarrow>
         (\<exists>a b c. a < length ?v \<and> b < length ?v \<and> c < length ?v \<and>
            rep_analysis rep = Some
              \<lparr>best_avg_latency =
                 \<lparr>best_setting = setting_name (?v ! a), best_value = avg_latency_ms (?v ! a)\<rparr>,
               best_spike_rate =
                 \<lparr>best_setting = setting_name (?v ! b), best_value = spike_percentage (?v ! b)\<rparr>,
               best_jitter =
                 \<lparr>best_setting = setting_name (?v ! c), best_value = avg_jitter_ms (?v ! c)\<rparr>\<rparr> \<and>
            (\<forall>j<length ?v.
               avg_latency_ms (?v ! a) \<le> avg_latency_ms (?v ! j) \<and>
               spike_percentage (?v ! b) \<le> spike_percentage (?v ! j) \<and>
               avg_jitter_ms (?v ! c) \<le> avg_jitter_ms (?v ! j)) \<and>
            (\<forall>j<a. avg_latency_ms (?v ! a) < avg_latency_ms (?v ! j)) \<and>
            (\<forall>j<b. spike_percentage (?v ! b) < spike_percentage (?v ! j)) \<and>
            (\<forall>j<c. avg_jitter_ms (?v ! c) < avg_jitter_ms (?v ! j))))"
  proof (cases "?v = []")
    case True
    then show ?thesis by (simp add: generate_report_invalid)
  next
    case False
    from min_key_props [OF False, of avg_latency_ms]
    obtain a where a: "a < length ?v" "min_key avg_latency_ms ?v = Inr (?v ! a)"
      "\<forall>j<length ?v. avg_latency_ms (?v ! a) \<le> avg_latency_ms (?v ! j)"
      "\<forall>j<a. avg_latency_ms (?v ! a) < avg_latency_ms (?v ! j)" by blast
    from min_key_props [OF False, of spike_percentage]
    obtain b where b: "b < length ?v" "min_key spike_percentage ?v = Inr (?v ! b)"
      "\<forall>j<length ?v. spike_percentage (?v ! b) \<le> spike_percentage (?v ! j)"
      "\<forall>j<b. spike_percentage (?v ! b) < spike_percentage (?v ! j)" by blast
    from min_key_props [OF False, of avg_jitter_ms]
    obtain c where c: "c < length ?v" "min_key avg_jitter_ms ?v = Inr (?v ! c)"
      "\<forall>j<length ?v. avg_jitter_ms (?v ! c) \<le> avg_jitter_ms (?v ! j)"
      "\<forall>j<c. avg_jitter_ms (?v ! c) < avg_jitter_ms (?v ! j)" by blast
    have rep: "rep_analysis (projr (generate_report xs)) = Some
              \<lparr>best_avg_latency =
                 \<lparr>best_setting = setting_name (?v ! a), best_value = avg_latency_ms (?v ! a)\<rparr>,
               best_spike_rate =
                 \<lparr>best_setting = setting_name (?v ! b), best_value = spike_percentage (?v ! b)\<rparr>,
               best_jitter =
                 \<lparr>best_setting = setting_name (?v ! c), best_value = avg_jitter_ms (?v ! c)\<rparr>\<rparr>"
      "generate_report xs = Inr (projr (generate_report xs))"
      using False a(2) b(2) c(2) unfolding generate_report_def Let_def
      by (simp_all add: then_res_def)
    show ?thesis
      apply (rule exI [of _ "projr (generate_report xs)"])
      apply (intro conjI impI)
        apply (rule rep(2))
       apply (simp add: False)
      apply (rule exI [of _ a], rule exI [of _ b], rule exI [of _ c])
      using a b c rep(1) apply simp
      done
  qed
next
  show "\<forall>r\<in>set (filter (\<lambda>r. avg_latency_ms r > 0) (measured inps)). raw_rtts r \<noteq> []"
    using measured_valid_has_rtts by auto
next
  show "(\<forall>i<PINGS_PER_TEST. reply outs i = None) \<longrightarrow>
      projr (run_ping_test label sv outs) \<notin> set (filter (\<lambda>r. avg_latency_ms r > 0) ys)"
    using measured_no_success [of outs label sv] by auto
qed

theorem report_best_selection_witness:
  "filter (\<lambda>r. avg_latency_ms r > 0)
     (measured [(''Baseline'', ''current'', [Some 10]), (''AWDL'', ''disabled'', [Some 10]),
                (''Bluetooth'', ''disabled'', [])]) \<noteq> [] \<and>
   list_all (\<lambda>i. reply [] i = None) [0..<PINGS_PER_TEST] \<and>
   (\<exists>rep. generate_report
       (measured [(''Baseline'', ''current'', [Some 10]), (''AWDL'', ''disabled'', [Some 10]),
                  (''Bluetooth'', ''disabled'', [])]) = Inr rep \<and>
      rep_analysis rep = Some
        \<lparr>best_avg_latency = \<lparr>best_setting = ''Baseline'', best_value = 10\<rparr>,
         best_spike_rate = \<lparr>best_setting = ''Baseline'', best_value = 0\<rparr>,
         best_jitter = \<lparr>best_setting = ''Baseline'', best_value = 0\<rparr>\<rparr>) \<and>
   projr (run_ping_test ''Bluetooth'' ''disabled'' []) \<notin>
     set (filter (\<lambda>r. avg_latency_ms r > 0)
       (measured [(''Baseline'', ''current'', [Some 10]), (''AWDL'', ''disabled'', [Some 10]),
                  (''Bluetooth'', ''disabled'', [])]))"
proof -
  define inps :: "(string \<times> string \<times> real option list) list"
    where "inps = [(''Baseline'', ''current'', [Some 10]), (''AWDL'', ''disabled'', [Some 10]),
                (''Bluetooth'', ''disabled'', [])]"
  define v where "v = filter (\<lambda>r. avg_latency_ms r > 0) (measured inps)"
  have m: "map (\<lambda>r. (setting_name r, avg_latency_ms r, spike_percentage r, avg_jitter_ms r)) v
           = [(''Baseline'', 10, 0, 0), (''AWDL'', 10, 0, 0)]"
    unfolding v_def inps_def by code_simp
  then obtain r0 r1 where v: "v = [r0, r1]"
    and r0: "setting_name r0 = ''Baseline''" "avg_latency_ms r0 = 10"
      "spike_percentage r0 = 0" "avg_jitter_ms r0 = 0"
    and r1: "avg_latency_ms r1 = 10" "spike_percentage r1 = 0" "avg_jitter_ms r1 = 0"
    by auto
  have ne: "v \<noteq> []" by (simp add: v)
  have h: "\<forall>i<PINGS_PER_TEST. reply [] i = None"
    by (simp add: reply_def)
  note t = report_best_selection [of "measured inps" inps "[]" "''Bluetooth''" "''disabled''"
      "measured inps", folded v_def]
  from t ne obtain rep a b c where rep: "generate_report (measured inps) = Inr rep"
    and abc: "a < length v" "b < length v" "c < length v"
    and an: "rep_analysis rep = Some
              \<lparr>best_avg_latency =
                 \<lparr>best_setting = setting_name (v ! a), best_value = avg_latency_ms (v ! a)\<rparr>,
               best_spike_rate =
                 \<lparr>best_setting = setting_name (v ! b), best_value = spike_percentage (v ! b)\<rparr>,
               best_jitter =
                 \<lparr>best_setting = setting_name (v ! c), best_value = avg_jitter_ms (v ! c)\<rparr>\<rparr>"
    and first: "\<forall>j<a. avg_latency_ms (v ! a) < avg_latency_ms (v ! j)"
      "\<forall>j<b. spike_percentage (v ! b) < spike_percentage (v ! j)"
      "\<forall>j<c. avg_jitter_ms (v ! c) < avg_jitter_ms (v ! j)"
    by blast
  have a0: "a = 0"
  proof (rule ccontr)
    assume "a \<noteq> 0"
    with abc(1) have "a = 1" by (simp add: v)
    with first(1) [rule_format, of 0] r0 r1 show False by (simp add: v)
  qed
  have b0: "b = 0"
  proof (rule ccontr)
    assume "b \<noteq> 0"
    with abc(2) have "b = 1" by (simp add: v)
    with first(2) [rule_format, of 0] r0 r1 show False by (simp add: v)
  qed
  have c0: "c = 0"
  proof (rule ccontr)
    assume "c \<noteq> 0"
    with abc(3) have "c = 1" by (simp add: v)
    with first(3) [rule_format, of 0] r0 r1 show False by (simp add: v)
  qed
  from an a0 b0 c0 r0 have an': "rep_analysis rep = Some
        \<lparr>best_avg_latency = \<lparr>best_setting = ''Baseline'', best_value = 10\<rparr>,
         best_spike_rate = \<lparr>best_setting = ''Baseline'', best_value = 0\<rparr>,
         best_jitter = \<lparr>best_setting = ''Baseline'', best_value = 0\<rparr>\<rparr>"
    by (simp add: v)
  from t h have nin: "projr (run_ping_test ''Bluetooth'' ''disabled'' []) \<notin> set v"
    by blast
  have h': "list_all (\<lambda>i. reply [] i = None) [0..<PINGS_PER_TEST]"
    by (simp add: list_all_iff reply_def)
  from ne h' rep an' nin have "v \<noteq> [] \<and>
   list_all (\<lambda>i. reply [] i = None) [0..<PINGS_PER_TEST] \<and>
   (\<exists>rep. generate_report (measured inps) = Inr rep \<and>
      rep_analysis rep = Some
        \<lparr>best_avg_latency = \<lparr>best_setting = ''Baseline'', best_value = 10\<rparr>,
         best_spike_rate = \<lparr>best_setting = ''Baseline'', best_value = 0\<rparr>,
         best_jitter = \<lparr>best_setting = ''Baseline'', best_value = 0\<rparr>\<rparr>) \<and>
   projr (run_ping_test ''Bluetooth'' ''disabled'' []) \<notin> set v"
    by blast
  then show ?thesis
    unfolding v_def inps_def .
qed

section \<open>Properties of the orchestrator\<close>

lemma blocking_nofault: "faults w = [] \<Longrightarrow> blocking w = (None, w\<lparr>clock := clock w + 1\<rparr>)"
  by (simp add: blocking_def)

lemma run_cmd_nofault:
  "faults w = [] \<Longrightarrow>
   run_cmd c w = (Inr (strip (fst (fst (exec c (host w)))), snd (fst (exec c (host w)))),
                  w\<lparr>clock := clock w + 1, host := snd (exec c (host w))\<rparr>)"
  by (simp add: run_cmd_def blocking_nofault split: prod.split)

lemma do_cmd_nofault:
  "faults w = [] \<Longrightarrow>
   do_cmd c w = (None, w\<lparr>clock := clock w + 1, host := snd (exec c (host w))\<rparr>)"
  by (simp add: do_cmd_def run_cmd_nofault)

lemma block_Cons_None: "fst (s w) = None \<Longrightarrow> block (s # ss) w = block ss (snd (s w))"
  by (cases "s w") simp

lemma block_append_None:
  "fst (block ss w) = None \<Longrightarrow> block (ss @ ts) w = block ts (snd (block ss w))"
proof (induction ss arbitrary: w)
  case Nil
  then show ?case by simp
next
  case (Cons s ss)
  show ?case
  proof (cases "s w")
    case (Pair r w')
    with Cons.prems have r: "r = None" by (cases r) auto
    with Pair Cons.prems have "fst (block ss w') = None" by simp
    from Cons.IH [OF this] Pair r show ?thesis by simp
  qed
qed

text \<open>What a statement of the restore leaves alone.\<close>

lemma restore_setting_nofault:
  assumes "faults w = []"
  shows "fst (restore_setting i w) = None"
    and "host (snd (restore_setting i w)) = restore_setting_host (settings w ! i) (host w)"
    and "settings (snd (restore_setting i w)) = settings w"
    and "original_states (snd (restore_setting i w)) = original_states w"
    and "has_blueutil (snd (restore_setting i w)) = has_blueutil w"
    and "faults (snd (restore_setting i w)) = []"
    and "trace (snd (restore_setting i w)) = trace w"
    and "results (snd (restore_setting i w)) = results w"
  using assms
  by (simp_all add: restore_setting_def restore_setting_host_def Let_def do_cmd_nofault
        split: option.split)

lemma restore_settings_nofault:
  assumes "faults w = []"
  shows "fst (block (map restore_setting is) w) = None \<and>
         host (snd (block (map restore_setting is) w))
           = fold (\<lambda>i. restore_setting_host (settings w ! i)) is (host w) \<and>
         settings (snd (block (map restore_setting is) w)) = settings w \<and>
         original_states (snd (block (map restore_setting is) w)) = original_states w \<and>
         has_blueutil (snd (block (map restore_setting is) w)) = has_blueutil w \<and>
         faults (snd (block (map restore_setting is) w)) = [] \<and>
         trace (snd (block (map restore_setting is) w)) = trace w \<and>
         results (snd (block (map restore_setting is) w)) = results w"
  using assms
proof (induction "is" arbitrary: w)
  case Nil
  then show ?case by simp
next
  case (Cons i "is")
  note rs = restore_setting_nofault [OF Cons.prems, of i]
  from Cons.IH [OF rs(6)] rs show ?case
    by (simp add: block_Cons_None del: block.simps)
qed

lemma fold_upt_nth: "fold (\<lambda>i. f (ss ! i)) [0..<length ss] h = fold f ss h"
proof -
  have "fold f (map (\<lambda>i. ss ! i) [0..<length ss]) h = fold (\<lambda>i. f (ss ! i)) [0..<length ss] h"
    by (simp add: fold_map comp_def)
  then show ?thesis by (simp add: map_nth)
qed

lemma restore_nofault:
  assumes "faults w = []"
  shows "fst (restore_original_states w) = None"
    and "host (snd (restore_original_states w))
           = restore_host (settings w) (original_states w) (has_blueutil w) (host w)"
    and "settings (snd (restore_original_states w)) = settings w"
    and "original_states (snd (restore_original_states w)) = original_states w"
    and "has_blueutil (snd (restore_original_states w)) = has_blueutil w"
    and "faults (snd (restore_original_states w)) = []"
    and "trace (snd (restore_original_states w)) = trace w @ [EvRestore]"
    and "results (snd (restore_original_states w)) = results w"
proof -
  let ?w0 = "w\<lparr>trace := trace w @ [EvRestore]\<rparr>"
  let ?w1 = "snd (block (map restore_setting [0..<length (settings w)]) ?w0)"
  have f0: "faults ?w0 = []" using assms by simp
  note l = restore_settings_nofault [OF f0, of "[0..<length (settings w)]"]
  have eq: "restore_original_states w = block [restore_awdl, restore_bluetooth] ?w1"
    using l unfolding restore_original_states_def
    by (simp add: emit_def block_append_None)
  have h1: "host ?w1 = fold restore_setting_host (settings w) (host w)"
    using l fold_upt_nth [of restore_setting_host "settings w" "host w"] by simp
  from l have f1: "faults ?w1 = []" by simp
  have r: "fst (block [restore_awdl, restore_bluetooth] ?w1) = None \<and>
        host (snd (block [restore_awdl, restore_bluetooth] ?w1))
           = restore_host (settings w) (original_states w) (has_blueutil w) (host w) \<and>
        settings (snd (block [restore_awdl, restore_bluetooth] ?w1)) = settings w \<and>
        original_states (snd (block [restore_awdl, restore_bluetooth] ?w1)) = original_states w \<and>
        has_blueutil (snd (block [restore_awdl, restore_bluetooth] ?w1)) = has_blueutil w \<and>
        faults (snd (block [restore_awdl, restore_bluetooth] ?w1)) = [] \<and>
        trace (snd (block [restore_awdl, restore_bluetooth] ?w1)) = trace w @ [EvRestore] \<and>
        results (snd (block [restore_awdl, restore_bluetooth] ?w1)) = results w"
    using l h1 f1
    by (simp add: restore_awdl_def restore_bluetooth_def restore_host_def Let_def
          do_cmd_nofault)
  from r show "fst (restore_original_states w) = None" unfolding eq by blast
  from r show "host (snd (restore_original_states w))
           = restore_host (settings w) (original_states w) (has_blueutil w) (host w)"
    unfolding eq by blast
  from r show "settings (snd (restore_original_states w)) = settings w" unfolding eq by blast
  from r show "original_states (snd (restore_original_states w)) = original_states w"
    unfolding eq by blast
  from r show "has_blueutil (snd (restore_original_states w)) = has_blueutil w"
    unfolding eq by blast
  from r show "faults (snd (restore_original_states w)) = []" unfolding eq by blast
  from r show "trace (snd (restore_original_states w)) = trace w @ [EvRestore]"
    unfolding eq by blast
  from r show "results (snd (restore_original_states w)) = results w"
    unfolding eq by blast
qed

text \<open>The settings loop writes at most the two kernel variables, each with a value that
  does not depend on the host.\<close>

lemma fold_restore_setting_host:
  "\<exists>da ab. \<forall>h. fold restore_setting_host ss h =
      (if sudo_ok h
         then h\<lparr>delayed_ack := (case da of None \<Rightarrow> delayed_ack h | Some v \<Rightarrow> v),
                 doautorcvbuf := (case ab of None \<Rightarrow> doautorcvbuf h | Some v \<Rightarrow> v)\<rparr>
       else h)"
proof (induction ss rule: rev_induct)
  case Nil
  show ?case
    by (rule exI [of _ None], rule exI [of _ None]) simp
next
  case (snoc s ss)
  then obtain da ab where IH: "\<forall>h. fold restore_setting_host ss h =
      (if sudo_ok h
         then h\<lparr>delayed_ack := (case da of None \<Rightarrow> delayed_ack h | Some v \<Rightarrow> v),
                 doautorcvbuf := (case ab of None \<Rightarrow> doautorcvbuf h | Some v \<Rightarrow> v)\<rparr>
       else h)" by blast
  consider (none) "original_value s = None \<or>
        (name s \<noteq> ''TCP Delayed ACK'' \<and> name s \<noteq> ''TCP Send/Recv Autotuning'')"
    | (da) v where "original_value s = Some v" "name s = ''TCP Delayed ACK''"
    | (ab) v where "original_value s = Some v" "name s \<noteq> ''TCP Delayed ACK''"
        "name s = ''TCP Send/Recv Autotuning''"
    by (cases "original_value s") auto
  then show ?case
  proof cases
    case none
    then have "\<And>h. restore_setting_host s h = h"
      by (auto simp: restore_setting_host_def split: option.split)
    with IH show ?thesis
      by (intro exI [of _ da] exI [of _ ab]) simp
  next
    case (da v)
    then have "\<And>h. restore_setting_host s h = (if sudo_ok h then h\<lparr>delayed_ack := v\<rparr> else h)"
      by (simp add: restore_setting_host_def)
    with IH show ?thesis
      by (intro exI [of _ "Some v"] exI [of _ ab]) simp
  next
    case (ab v)
    then have "\<And>h. restore_setting_host s h = (if sudo_ok h then h\<lparr>doautorcvbuf := v\<rparr> else h)"
      by (simp add: restore_setting_host_def)
    with IH show ?thesis
      by (intro exI [of _ da] exI [of _ "Some v"]) simp
  qed
qed

lemma restore_host_idem:
  "restore_host ss captured hb (restore_host ss captured hb h) = restore_host ss captured hb h"
proof -
  from fold_restore_setting_host [of ss] obtain da ab where
    f: "\<And>h. fold restore_setting_host ss h =
      (if sudo_ok h
         then h\<lparr>delayed_ack := (case da of None \<Rightarrow> delayed_ack h | Some v \<Rightarrow> v),
                 doautorcvbuf := (case ab of None \<Rightarrow> doautorcvbuf h | Some v \<Rightarrow> v)\<rparr>
       else h)" by blast
  show ?thesis
    unfolding restore_host_def Let_def f
    by (cases da; cases ab) simp_all
qed

text \<open>
  Claim C9. For a fixed captured state (the settings list with its original values, the
  dictionary of original states and the blueutil flag), and with no exception arriving
  while it runs, \<^verbatim>\<open>restore_original_states\<close> called twice in succession leaves the host in
  the same state as called once.
\<close>

theorem restore_idempotent:
  "faults w = [] \<longrightarrow>
     fst (restore_original_states w) = None \<and>
     fst (restore_original_states (snd (restore_original_states w))) = None \<and>
     host (snd (restore_original_states (snd (restore_original_states w))))
       = host (snd (restore_original_states w)) \<and>
     host (snd (restore_original_states w))
       = restore_host (settings w) (original_states w) (has_blueutil w) (host w)"
proof
  assume f: "faults w = []"
  note a = restore_nofault [OF f]
  note b = restore_nofault [OF a(6)]
  from a b show "fst (restore_original_states w) = None \<and>
     fst (restore_original_states (snd (restore_original_states w))) = None \<and>
     host (snd (restore_original_states (snd (restore_original_states w))))
       = host (snd (restore_original_states w)) \<and>
     host (snd (restore_original_states w))
       = restore_host (settings w) (original_states w) (has_blueutil w) (host w)"
    by (simp add: restore_host_idem)
qed


theorem restore_idempotent_witness:
  "faults (snd (block [init_optimizer, save_original_states,
                       apply_setting ''TCP Delayed ACK'' False, apply_setting ''AWDL'' False]
      (boot \<lparr>delayed_ack = ''3'', doautorcvbuf = ''1'', awdl_active = True, bt_power = True,
             sudo_ok = True, blueutil = True\<rparr> [] []))) = [] \<and>
   host (snd (restore_original_states (snd (restore_original_states
     (snd (block [init_optimizer, save_original_states,
                  apply_setting ''TCP Delayed ACK'' False, apply_setting ''AWDL'' False]
      (boot \<lparr>delayed_ack = ''3'', doautorcvbuf = ''1'', awdl_active = True, bt_power = True,
             sudo_ok = True, blueutil = True\<rparr> [] [])))))))
   = host (snd (restore_original_states
     (snd (block [init_optimizer, save_original_states,
                  apply_setting ''TCP Delayed ACK'' False, apply_setting ''AWDL'' False]
      (boot \<lparr>delayed_ack = ''3'', doautorcvbuf = ''1'', awdl_active = True, bt_power = True,
             sudo_ok = True, blueutil = True\<rparr> [] []))))) \<and>
   host (snd (block [init_optimizer, save_original_states,
                  apply_setting ''TCP Delayed ACK'' False, apply_setting ''AWDL'' False]
      (boot \<lparr>delayed_ack = ''3'', doautorcvbuf = ''1'', awdl_active = True, bt_power = True,
             sudo_ok = True, blueutil = True\<rparr> [] [])))
   = \<lparr>delayed_ack = ''0'', doautorcvbuf = ''1'', awdl_active = False, bt_power = True,
      sudo_ok = True, blueutil = True\<rparr> \<and>
   host (snd (restore_original_states
     (snd (block [init_optimizer, save_original_states,
                  apply_setting ''TCP Delayed ACK'' False, apply_setting ''AWDL'' False]
      (boot \<lparr>delayed_ack = ''3'', doautorcvbuf = ''1'', awdl_active = True, bt_power = True,
             sudo_ok = True, blueutil = True\<rparr> [] [])))))
   = \<lparr>delayed_ack = ''3'', doautorcvbuf = ''1'', awdl_active = True, bt_power = True,
      sudo_ok = True, blueutil = True\<rparr>"
proof -
  define w where "w = snd (block [init_optimizer, save_original_states,
                       apply_setting ''TCP Delayed ACK'' False, apply_setting ''AWDL'' False]
      (boot \<lparr>delayed_ack = ''3'', doautorcvbuf = ''1'', awdl_active = True, bt_power = True,
             sudo_ok = True, blueutil = True\<rparr> [] []))"
  have f: "faults w = []"
    unfolding w_def by code_simp
  have p: "host w = \<lparr>delayed_ack = ''0'', doautorcvbuf = ''1'', awdl_active = False,
      bt_power = True, sudo_ok = True, blueutil = True\<rparr>"
    unfolding w_def by code_simp
  have r: "host (snd (restore_original_states w))
     = \<lparr>delayed_ack = ''3'', doautorcvbuf = ''1'', awdl_active = True, bt_power = True,
        sudo_ok = True, blueutil = True\<rparr>"
    unfolding w_def by code_simp
  from restore_idempotent [of w] f
  have i: "host (snd (restore_original_states (snd (restore_original_states w))))
       = host (snd (restore_original_states w))"
    by blast
  from f i p r have "faults w = [] \<and>
     host (snd (restore_original_states (snd (restore_original_states w))))
       = host (snd (restore_original_states w)) \<and>
     host w = \<lparr>delayed_ack = ''0'', doautorcvbuf = ''1'', awdl_active = False,
      bt_power = True, sudo_ok = True, blueutil = True\<rparr> \<and>
     host (snd (restore_original_states w))
     = \<lparr>delayed_ack = ''3'', doautorcvbuf = ''1'', awdl_active = True, bt_power = True,
        sudo_ok = True, blueutil = True\<rparr>"
    by blast
  then show ?thesis
    unfolding w_def .
qed

lemma check_sudo_cases:
  "check_sudo w =
     (case map_of (faults w) (clock w) of
        Some Interrupt \<Rightarrow> (Some KeyboardInterrupt, w\<lparr>clock := clock w + 1\<rparr>)
      | Some _ \<Rightarrow> (Some (SystemExit 1), w\<lparr>clock := clock w + 1\<rparr>)
      | None \<Rightarrow> (if sudo_ok (host w) then None else Some (SystemExit 1),
                 w\<lparr>clock := clock w + 1\<rparr>))"
  by (simp add: check_sudo_def run_cmd_def blocking_def split: option.split fault.split)

text \<open>
  Claim C7. If the privilege check at the start fails, the process ends with a non-zero
  status and \<^verbatim>\<open>save_original_states\<close> is never entered: nothing has been captured and the
  host is as it was. The check fails whenever \<^verbatim>\<open>sudo -n\<close> is refused, and the status is
  then that of \<^verbatim>\<open>sys.exit(1)\<close>.
\<close>

theorem privilege_failure_exits_before_save:
  "(fst (check_sudo (boot h fs fd)) \<noteq> None \<longrightarrow>
      exit_status (fst (main h fs fd)) \<noteq> 0 \<and>
      trace (snd (main h fs fd)) = [] \<and>
      EvSave \<notin> set (trace (snd (main h fs fd))) \<and>
      original_states (snd (main h fs fd)) = [] \<and>
      settings (snd (main h fs fd)) = SETTINGS \<and>
      host (snd (main h fs fd)) = h) \<and>
   (\<not> sudo_ok h \<longrightarrow> fst (check_sudo (boot h fs fd)) \<noteq> None) \<and>
   (\<not> sudo_ok h \<and> map_of fs 0 \<noteq> Some Interrupt \<longrightarrow>
      fst (main h fs fd) = Some (SystemExit 1))"
proof (intro conjI impI)
  assume a: "fst (check_sudo (boot h fs fd)) \<noteq> None"
  then obtain e w' where c: "check_sudo (boot h fs fd) = (Some e, w')"
    by (cases "check_sudo (boot h fs fd)") auto
  then have m: "main h fs fd = (Some e, w')"
    by (simp add: main_def)
  from c have e: "e = KeyboardInterrupt \<or> e = SystemExit 1"
    and w': "w' = (boot h fs fd)\<lparr>clock := 1\<rparr>"
    by (auto simp: check_sudo_cases boot_def split: option.splits fault.splits if_splits)
  from e show "exit_status (fst (main h fs fd)) \<noteq> 0"
    by (auto simp: m exit_status_def)
  show "trace (snd (main h fs fd)) = []" by (simp add: m w' boot_def)
  then show "EvSave \<notin> set (trace (snd (main h fs fd)))" by simp
  show "original_states (snd (main h fs fd)) = []" by (simp add: m w' boot_def)
  show "settings (snd (main h fs fd)) = SETTINGS" by (simp add: m w' boot_def)
  show "host (snd (main h fs fd)) = h" by (simp add: m w' boot_def)
next
  assume "\<not> sudo_ok h"
  then show "fst (check_sudo (boot h fs fd)) \<noteq> None"
    by (simp add: check_sudo_cases boot_def split: option.split fault.split)
next
  assume "\<not> sudo_ok h \<and> map_of fs 0 \<noteq> Some Interrupt"
  then have "check_sudo (boot h fs fd) = (Some (SystemExit 1), (boot h fs fd)\<lparr>clock := 1\<rparr>)"
    by (auto simp: check_sudo_cases boot_def split: option.split fault.split)
  then show "fst (main h fs fd) = Some (SystemExit 1)"
    by (simp add: main_def)
qed

theorem privilege_failure_exits_before_save_witness:
  "fst (check_sudo (boot \<lparr>delayed_ack = ''3'', doautorcvbuf = ''1'', awdl_active = True,
          bt_power = True, sudo_ok = False, blueutil = True\<rparr> [] [])) \<noteq> None \<and>
   fst (main \<lparr>delayed_ack = ''3'', doautorcvbuf = ''1'', awdl_active = True,
          bt_power = True, sudo_ok = False, blueutil = True\<rparr> [] []) = Some (SystemExit 1) \<and>
   exit_status (fst (main \<lparr>delayed_ack = ''3'', doautorcvbuf = ''1'', awdl_active = True,
          bt_power = True, sudo_ok = False, blueutil = True\<rparr> [] [])) = 1 \<and>
   trace (snd (main \<lparr>delayed_ack = ''3'', doautorcvbuf = ''1'', awdl_active = True,
          bt_power = True, sudo_ok = False, blueutil = True\<rparr> [] [])) = [] \<and>
   original_states (snd (main \<lparr>delayed_ack = ''3'', doautorcvbuf = ''1'', awdl_active = True,
          bt_power = True, sudo_ok = False, blueutil = True\<rparr> [] [])) = []"
proof -
  define h where "h = \<lparr>delayed_ack = ''3'', doautorcvbuf = ''1'', awdl_active = True,
          bt_power = True, sudo_ok = False, blueutil = True\<rparr>"
  have s: "\<not> sudo_ok h" by (simp add: h_def)
  have i: "map_of ([] :: (nat \<times> fault) list) 0 \<noteq> Some Interrupt" by simp
  note t = privilege_failure_exits_before_save [of h "[]" "[]"]
  from t s have c: "fst (check_sudo (boot h [] [])) \<noteq> None" by blast
  with t have r: "trace (snd (main h [] [])) = []" "original_states (snd (main h [] [])) = []"
    by blast+
  from t s i have e: "fst (main h [] []) = Some (SystemExit 1)" by blast
  then have x: "exit_status (fst (main h [] [])) = 1" by (simp add: exit_status_def)
  from c e x r have "fst (check_sudo (boot h [] [])) \<noteq> None \<and>
    fst (main h [] []) = Some (SystemExit 1) \<and> exit_status (fst (main h [] [])) = 1 \<and>
    trace (snd (main h [] [])) = [] \<and> original_states (snd (main h [] [])) = []"
    by blast
  then show ?thesis unfolding h_def .
qed

lemma parse_awdl_active: "parse_awdl ''awdl0: flags=8943<UP,RUNNING> status: active'' = ''on''"
  by code_simp

lemma parse_awdl_inactive:
  "parse_awdl ''awdl0: flags=8902<RUNNING> status: inactive'' = ''off''"
  by code_simp

lemma strip_digit: "strip ''1'' = ''1''" "strip ''0'' = ''0''" "strip [] = []"
  by code_simp+

lemma strip_outputs:
  "strip ''awdl0: flags=8943<UP,RUNNING> status: active''
     = ''awdl0: flags=8943<UP,RUNNING> status: active''"
  "strip ''awdl0: flags=8902<RUNNING> status: inactive''
     = ''awdl0: flags=8902<RUNNING> status: inactive''"
  "strip ''Bluetooth: State: On'' = ''Bluetooth: State: On''"
  "strip ''Bluetooth: State: Off'' = ''Bluetooth: State: Off''"
  by code_simp+

lemma contains_state_on:
  "contains ''State: On'' ''Bluetooth: State: On''"
  "\<not> contains ''State: On'' ''Bluetooth: State: Off''"
  by code_simp+

lemma setting_name_measured [simp]:
  "setting_name (projr (run_ping_test label sv outs)) = label"
  by (simp add: run_ping_test_Inr Let_def)

lemma append_ping_test_nofault:
  "faults w = [] \<Longrightarrow>
   append_ping_test label sv w =
     (None, w\<lparr>trace := trace w @ [EvPing label sv (host w)], clock := clock w + 1,
               feed := drop 1 (feed w),
               results := results w @
                 [projr (run_ping_test label sv (case feed w of [] \<Rightarrow> [] | outs # _ \<Rightarrow> outs))]\<rparr>)"
proof -
  assume f: "faults w = []"
  have "\<exists>r. run_ping_test label sv (case feed w of [] \<Rightarrow> [] | outs # _ \<Rightarrow> outs) = Inr r"
    by (simp add: run_ping_test_Inr Let_def)
  then obtain r where
    r: "run_ping_test label sv (case feed w of [] \<Rightarrow> [] | outs # _ \<Rightarrow> outs) = Inr r"
    by blast
  show ?thesis
    using f r by (simp add: append_ping_test_def blocking_def)
qed

lemma generate_report_total: "\<exists>rep. generate_report xs = Inr rep"
proof (cases "filter (\<lambda>r. avg_latency_ms r > 0) xs = []")
  case True
  then show ?thesis by (simp add: generate_report_invalid)
next
  case False
  from generate_report_valid [OF False] show ?thesis by blast
qed

lemma write_report_nofault:
  "write_report w =
     (None, w\<lparr>trace := trace w @ [EvReport],
               saved_report := Some (projr (generate_report (results w)))\<rparr>)"
proof -
  obtain rep where "generate_report (results w) = Inr rep"
    using generate_report_total by blast
  then show ?thesis by (simp add: write_report_def)
qed

lemma sleep_nofault: "faults w = [] \<Longrightarrow> sleep w = (None, w\<lparr>clock := clock w + 1\<rparr>)"
  by (simp add: sleep_def blocking_nofault)

lemmas nofault_steps =
  do_cmd_nofault run_cmd_nofault append_ping_test_nofault write_report_nofault sleep_nofault


lemma emit_simp: "emit ev w = (None, w\<lparr>trace := trace w @ [ev]\<rparr>)"
  by (simp add: emit_def)

lemma apply_delayed_ack:
  "faults w = [] \<Longrightarrow>
   apply_setting ''TCP Delayed ACK'' enable w =
     (None, w\<lparr>trace := trace w @ [EvApply ''TCP Delayed ACK'' enable],
               clock := clock w + 1,
               host := snd (exec (SudoSysctlW ''net.inet.tcp.delayed_ack''
                          (if enable then ''3'' else ''0'')) (host w))\<rparr>)"
  by (simp add: apply_setting_def emit_def do_cmd_nofault)

lemma apply_awdl:
  "faults w = [] \<Longrightarrow>
   apply_setting ''AWDL'' enable w =
     (None, w\<lparr>trace := trace w @ [EvApply ''AWDL'' enable],
               clock := clock w + 1,
               host := snd (exec (SudoIfconfigAwdl enable) (host w))\<rparr>)"
  by (simp add: apply_setting_def emit_def do_cmd_nofault)

lemma apply_bluetooth:
  "faults w = [] \<Longrightarrow> has_blueutil w \<Longrightarrow>
   apply_setting ''Bluetooth'' enable w =
     (None, w\<lparr>trace := trace w @ [EvApply ''Bluetooth'' enable],
               clock := clock w + 2,
               host := snd (exec (BlueutilSetPower (if enable then ''1'' else ''0''))
                          (host w))\<rparr>)"
  by (simp add: apply_setting_def emit_def do_cmd_nofault sleep_nofault)


lemma save_setting_nofault:
  "faults w = [] \<Longrightarrow>
   save_setting i w =
     (None, w\<lparr>clock := clock w + 1,
               host := snd (exec (get_cmd (settings w ! i)) (host w)),
               settings := (settings w)[i := (settings w ! i)\<lparr>original_value :=
                  Some (parse_current (settings w ! i)
                     (strip (fst (fst (exec (get_cmd (settings w ! i)) (host w))))))\<rparr>],
               original_states := dict_set (name (settings w ! i))
                  (parse_current (settings w ! i)
                     (strip (fst (fst (exec (get_cmd (settings w ! i)) (host w))))))
                  (original_states w)\<rparr>)"
  by (simp add: save_setting_def Let_def run_cmd_nofault split: prod.split)

lemma save_awdl_nofault:
  "faults w = [] \<Longrightarrow>
   save_awdl w =
     (None, w\<lparr>clock := clock w + 1,
               original_states := dict_set ''AWDL''
                  (if awdl_active (host w) then ''on'' else ''off'') (original_states w)\<rparr>)"
  by (simp add: save_awdl_def get_awdl_state_def run_cmd_nofault parse_awdl_active
        parse_awdl_inactive strip_outputs)

lemma save_bluetooth_nofault:
  "faults w = [] \<Longrightarrow>
   save_bluetooth w =
     (None, w\<lparr>clock := clock w + (if blueutil (host w) then 1 else 2),
               original_states := dict_set ''Bluetooth''
                  (if bt_power (host w) then ''on'' else ''off'') (original_states w)\<rparr>)"
  by (simp add: save_bluetooth_def get_bluetooth_state_def run_cmd_nofault strip_digit
        strip_outputs contains_state_on)


lemma save_original_states_nofault:
  assumes "faults w = []" "settings w = SETTINGS" "original_states w = []"
  shows "save_original_states w =
     (None, w\<lparr>trace := trace w @ [EvSave, EvSaved],
               clock := clock w + (if blueutil (host w) then 4 else 5),
               settings :=
                 map2 (\<lambda>s v. s\<lparr>original_value := Some v\<rparr>) SETTINGS
                   [parse_sysctl (strip (''net.inet.tcp.delayed_ack: '' @ delayed_ack (host w))),
                    parse_sysctl (strip (''net.inet.tcp.doautorcvbuf: '' @ doautorcvbuf (host w)))],
               original_states :=
                 [(''TCP Delayed ACK'',
                     parse_sysctl (strip (''net.inet.tcp.delayed_ack: '' @ delayed_ack (host w)))),
                  (''TCP Send/Recv Autotuning'',
                     parse_sysctl (strip (''net.inet.tcp.doautorcvbuf: '' @ doautorcvbuf (host w)))),
                  (''AWDL'', if awdl_active (host w) then ''on'' else ''off''),
                  (''Bluetooth'', if bt_power (host w) then ''on'' else ''off'')]\<rparr>)"
proof -
  have len: "[0..<length (settings w)] = [0, 1]"
    using assms(2) by (simp add: SETTINGS_def upt_rec)
  show ?thesis
    unfolding save_original_states_def len
    using assms
    by (simp add: emit_simp save_setting_nofault save_awdl_nofault save_bluetooth_nofault
          SETTINGS_def dict_set_def)
qed


lemma init_optimizer_nofault:
  "faults w = [] \<Longrightarrow>
   init_optimizer w =
     (None, w\<lparr>clock := clock w + 1, results := [], original_states := [],
               has_blueutil := blueutil (host w)\<rparr>)"
  by (simp add: init_optimizer_def run_cmd_nofault)

lemma check_sudo_nofault:
  "faults w = [] \<Longrightarrow> sudo_ok (host w) \<Longrightarrow>
   check_sudo w = (None, w\<lparr>clock := clock w + 1\<rparr>)"
  by (simp add: check_sudo_def run_cmd_nofault)

lemma try_finally_alt:
  "try_finally body fin w =
     (case fst (fin (snd (body w))) of None \<Rightarrow> fst (body w) | Some e \<Rightarrow> Some e,
      snd (fin (snd (body w))))"
  by (simp add: try_finally_def split: prod.split option.split)

lemmas battery_steps =
  check_sudo_nofault init_optimizer_nofault save_original_states_nofault
  apply_delayed_ack apply_awdl apply_bluetooth
  append_ping_test_nofault sleep_nofault write_report_nofault
  try_finally_alt try_except_KeyboardInterrupt_def when_blueutil_def
  restore_nofault

lemma restore_host_saved:
  "restore_host (map2 (\<lambda>s v. s\<lparr>original_value := Some v\<rparr>) SETTINGS [da, ab])
     captured hb h =
   (let h1 = (if sudo_ok h then h\<lparr>delayed_ack := da, doautorcvbuf := ab\<rparr> else h);
        h2 = (if dict_get captured ''AWDL'' = Some ''on'' \<and> sudo_ok h
                then h1\<lparr>awdl_active := True\<rparr> else h1)
    in if hb \<and> blueutil h
         then h2\<lparr>bt_power := (dict_get captured ''Bluetooth'' = Some ''on'')\<rparr>
       else h2)"
proof -
  obtain s0 s1 where ss: "SETTINGS = [s0, s1]"
    and n: "name s0 = ''TCP Delayed ACK''" "name s1 = ''TCP Send/Recv Autotuning''"
    by (simp add: SETTINGS_def)
  have s0: "restore_setting_host (s0\<lparr>original_value := Some da\<rparr>) x
      = (if sudo_ok x then x\<lparr>delayed_ack := da\<rparr> else x)" for x
    by (simp add: restore_setting_host_def n)
  have s1: "restore_setting_host (s1\<lparr>original_value := Some ab\<rparr>) x
      = (if sudo_ok x then x\<lparr>doautorcvbuf := ab\<rparr> else x)" for x
    by (simp add: restore_setting_host_def n)
  have m: "map2 (\<lambda>s v. s\<lparr>original_value := Some v\<rparr>) SETTINGS [da, ab]
           = [s0\<lparr>original_value := Some da\<rparr>, s1\<lparr>original_value := Some ab\<rparr>]"
    by (simp add: ss)
  show ?thesis
    unfolding restore_host_def Let_def m fold_simps id_o o_id comp_apply s0 s1
    by simp
qed


lemma strip_plain:
  assumes "s \<noteq> []" "\<not> is_space (hd s)" "\<not> is_space (last s)"
  shows "strip s = s"
proof -
  have d1: "dropWhile is_space s = s"
    using assms(1,2) by (cases s) simp_all
  have d2: "dropWhile is_space (rev s) = rev s"
    using assms(1,3) by (cases "rev s") (simp_all add: last_conv_nth hd_rev [symmetric])
  show ?thesis
    unfolding strip_def using d1 d2 by simp
qed

lemma parse_sysctl_value:
  assumes "CHR '':'' \<notin> set v" "v \<noteq> []" "\<not> is_space (hd v)" "\<not> is_space (last v)"
    and "k \<noteq> []" "\<not> is_space (hd k)"
  shows "parse_sysctl (strip (k @ '': '' @ v)) = v"
proof -
  have st: "strip (k @ '': '' @ v) = k @ '': '' @ v"
    using assms(2,4,5,6) by (intro strip_plain) simp_all
  have tw: "takeWhile (\<lambda>c. c \<noteq> CHR '':'') (rev (k @ '': '' @ v)) = rev v @ '' ''"
    by (simp, subst takeWhile_append2) (use assms(1) in auto)
  have d1: "dropWhile is_space ('' '' @ v) = v"
    using assms(2,3) by (cases v) (simp_all add: is_space_def)
  have d2: "dropWhile is_space (rev v) = rev v"
    using assms(2,4) by (cases "rev v") (simp_all add: last_conv_nth hd_rev [symmetric])
  show ?thesis
    unfolding st unfolding parse_sysctl_def strip_def using tw d1 d2 by simp
qed

lemma battery_blueutil:
  assumes "sudo_ok h" "blueutil h"
  shows "fst (main h [] fd) = None"
    and "trace (snd (main h [] fd)) =
       [EvSave, EvSaved,
        EvPing ''Baseline'' ''current'' h,
        EvApply ''TCP Delayed ACK'' False,
        EvPing ''TCP Delayed ACK'' ''disabled'' (h\<lparr>delayed_ack := ''0''\<rparr>),
        EvApply ''TCP Delayed ACK'' True,
        EvApply ''AWDL'' False,
        EvPing ''AWDL'' ''disabled'' (h\<lparr>delayed_ack := ''3'', awdl_active := False\<rparr>),
        EvApply ''AWDL'' True,
        EvApply ''Bluetooth'' False,
        EvPing ''Bluetooth'' ''disabled''
          (h\<lparr>delayed_ack := ''3'', awdl_active := True, bt_power := False\<rparr>),
        EvApply ''Bluetooth'' True,
        EvApply ''TCP Delayed ACK'' False,
        EvApply ''AWDL'' False,
        EvApply ''Bluetooth'' False,
        EvPing ''All Optimizations'' ''enabled''
          (h\<lparr>delayed_ack := ''0'', awdl_active := False, bt_power := False\<rparr>),
        EvRestore, EvReport]"
    and "map setting_name (results (snd (main h [] fd))) =
       [''Baseline'', ''TCP Delayed ACK'', ''AWDL'', ''Bluetooth'', ''All Optimizations'']"
    and "host (snd (main h [] fd)) =
       h\<lparr>delayed_ack := parse_sysctl (strip (''net.inet.tcp.delayed_ack: '' @ delayed_ack h)),
          doautorcvbuf := parse_sysctl (strip (''net.inet.tcp.doautorcvbuf: '' @ doautorcvbuf h))\<rparr>"
  using assms
  by (simp_all add: main_def boot_def run_all_tests_def battery_steps restore_host_saved
        dict_get_def Let_def)

lemma battery_no_blueutil:
  assumes "sudo_ok h" "\<not> blueutil h"
  shows "fst (main h [] fd) = None"
    and "trace (snd (main h [] fd)) =
       [EvSave, EvSaved,
        EvPing ''Baseline'' ''current'' h,
        EvApply ''TCP Delayed ACK'' False,
        EvPing ''TCP Delayed ACK'' ''disabled'' (h\<lparr>delayed_ack := ''0''\<rparr>),
        EvApply ''TCP Delayed ACK'' True,
        EvApply ''AWDL'' False,
        EvPing ''AWDL'' ''disabled'' (h\<lparr>delayed_ack := ''3'', awdl_active := False\<rparr>),
        EvApply ''AWDL'' True,
        EvApply ''TCP Delayed ACK'' False,
        EvApply ''AWDL'' False,
        EvPing ''All Optimizations'' ''enabled''
          (h\<lparr>delayed_ack := ''0'', awdl_active := False\<rparr>),
        EvRestore, EvReport]"
    and "map setting_name (results (snd (main h [] fd))) =
       [''Baseline'', ''TCP Delayed ACK'', ''AWDL'', ''All Optimizations'']"
    and "host (snd (main h [] fd)) =
       h\<lparr>delayed_ack := parse_sysctl (strip (''net.inet.tcp.delayed_ack: '' @ delayed_ack h)),
          doautorcvbuf := parse_sysctl (strip (''net.inet.tcp.doautorcvbuf: '' @ doautorcvbuf h))\<rparr>"
  using assms
  by (simp_all add: main_def boot_def run_all_tests_def battery_steps restore_host_saved
        dict_get_def Let_def)


text \<open>
  Claim C4, as stated, has one experiment for each setting of the registry and disables
  all registered settings in the last experiment. The registry holds
  TCP Send/Recv Autotuning, yet a complete run has no experiment with that label and never
  disables it: in the last experiment \<open>doautorcvbuf\<close> still has its original value 1.
\<close>

theorem battery_fixed_order_counterexample:
  "''TCP Send/Recv Autotuning'' \<in> set (map name SETTINGS) \<and>
   fst (main \<lparr>delayed_ack = ''3'', doautorcvbuf = ''1'', awdl_active = True, bt_power = True,
              sudo_ok = True, blueutil = True\<rparr> [] []) = None \<and>
   map setting_name (results (snd
     (main \<lparr>delayed_ack = ''3'', doautorcvbuf = ''1'', awdl_active = True, bt_power = True,
            sudo_ok = True, blueutil = True\<rparr> [] [])))
     = [''Baseline'', ''TCP Delayed ACK'', ''AWDL'', ''Bluetooth'', ''All Optimizations''] \<and>
   ''TCP Send/Recv Autotuning'' \<notin> set (map setting_name (results (snd
     (main \<lparr>delayed_ack = ''3'', doautorcvbuf = ''1'', awdl_active = True, bt_power = True,
            sudo_ok = True, blueutil = True\<rparr> [] [])))) \<and>
   EvApply ''TCP Send/Recv Autotuning'' False \<notin> set (trace (snd
     (main \<lparr>delayed_ack = ''3'', doautorcvbuf = ''1'', awdl_active = True, bt_power = True,
            sudo_ok = True, blueutil = True\<rparr> [] []))) \<and>
   last (butlast (butlast (trace (snd
     (main \<lparr>delayed_ack = ''3'', doautorcvbuf = ''1'', awdl_active = True, bt_power = True,
            sudo_ok = True, blueutil = True\<rparr> [] [])))))
     = EvPing ''All Optimizations'' ''enabled''
         \<lparr>delayed_ack = ''0'', doautorcvbuf = ''1'', awdl_active = False, bt_power = False,
          sudo_ok = True, blueutil = True\<rparr>"
  by code_simp

text \<open>
  Claim C4, amended. With the privilege available and nothing arriving from outside, a run
  executes its battery strictly in this order: the baseline on the unchanged host; TCP
  Delayed ACK alone disabled, then set back to 3; AWDL alone disabled, then brought up
  again; only when blueutil is installed, Bluetooth alone disabled, then powered on again;
  finally one experiment with TCP Delayed ACK, AWDL and (when blueutil is installed)
  Bluetooth disabled together, after which \<^verbatim>\<open>restore_original_states\<close> runs and the report
  is generated. TCP Send/Recv Autotuning is never changed. When the two kernel variables
  held plain values, the host ends as it started.
\<close>

theorem battery_fixed_order:
  "sudo_ok h \<longrightarrow>
     fst (main h [] fd) = None \<and>
     trace (snd (main h [] fd)) =
       [EvSave, EvSaved,
        EvPing ''Baseline'' ''current'' h,
        EvApply ''TCP Delayed ACK'' False,
        EvPing ''TCP Delayed ACK'' ''disabled'' (h\<lparr>delayed_ack := ''0''\<rparr>),
        EvApply ''TCP Delayed ACK'' True,
        EvApply ''AWDL'' False,
        EvPing ''AWDL'' ''disabled'' (h\<lparr>delayed_ack := ''3'', awdl_active := False\<rparr>),
        EvApply ''AWDL'' True] @
       (if blueutil h
          then [EvApply ''Bluetooth'' False,
                EvPing ''Bluetooth'' ''disabled''
                  (h\<lparr>delayed_ack := ''3'', awdl_active := True, bt_power := False\<rparr>),
                EvApply ''Bluetooth'' True]
        else []) @
       [EvApply ''TCP Delayed ACK'' False,
        EvApply ''AWDL'' False] @
       (if blueutil h then [EvApply ''Bluetooth'' False] else []) @
       [EvPing ''All Optimizations'' ''enabled''
          (if blueutil h
             then h\<lparr>delayed_ack := ''0'', awdl_active := False, bt_power := False\<rparr>
           else h\<lparr>delayed_ack := ''0'', awdl_active := False\<rparr>),
        EvRestore, EvReport] \<and>
     map setting_name (results (snd (main h [] fd))) =
       [''Baseline'', ''TCP Delayed ACK'', ''AWDL''] @
       (if blueutil h then [''Bluetooth''] else []) @ [''All Optimizations''] \<and>
     host (snd (main h [] fd)) =
       h\<lparr>delayed_ack := parse_sysctl (strip (''net.inet.tcp.delayed_ack: '' @ delayed_ack h)),
          doautorcvbuf := parse_sysctl (strip (''net.inet.tcp.doautorcvbuf: '' @ doautorcvbuf h))\<rparr> \<and>
     (CHR '':'' \<notin> set (delayed_ack h) \<and> delayed_ack h \<noteq> [] \<and>
      \<not> is_space (hd (delayed_ack h)) \<and> \<not> is_space (last (delayed_ack h)) \<and>
      CHR '':'' \<notin> set (doautorcvbuf h) \<and> doautorcvbuf h \<noteq> [] \<and>
      \<not> is_space (hd (doautorcvbuf h)) \<and> \<not> is_space (last (doautorcvbuf h)) \<longrightarrow>
      host (snd (main h [] fd)) = h)"
proof (intro impI)
  assume s: "sudo_ok h"
  show "fst (main h [] fd) = None \<and>
     trace (snd (main h [] fd)) =
       [EvSave, EvSaved,
        EvPing ''Baseline'' ''current'' h,
        EvApply ''TCP Delayed ACK'' False,
        EvPing ''TCP Delayed ACK'' ''disabled'' (h\<lparr>delayed_ack := ''0''\<rparr>),
        EvApply ''TCP Delayed ACK'' True,
        EvApply ''AWDL'' False,
        EvPing ''AWDL'' ''disabled'' (h\<lparr>delayed_ack := ''3'', awdl_active := False\<rparr>),
        EvApply ''AWDL'' True] @
       (if blueutil h
          then [EvApply ''Bluetooth'' False,
                EvPing ''Bluetooth'' ''disabled''
                  (h\<lparr>delayed_ack := ''3'', awdl_active := True, bt_power := False\<rparr>),
                EvApply ''Bluetooth'' True]
        else []) @
       [EvApply ''TCP Delayed ACK'' False,
        EvApply ''AWDL'' False] @
       (if blueutil h then [EvApply ''Bluetooth'' False] else []) @
       [EvPing ''All Optimizations'' ''enabled''
          (if blueutil h
             then h\<lparr>delayed_ack := ''0'', awdl_active := False, bt_power := False\<rparr>
           else h\<lparr>delayed_ack := ''0'', awdl_active := False\<rparr>),
        EvRestore, EvReport] \<and>
     map setting_name (results (snd (main h [] fd))) =
       [''Baseline'', ''TCP Delayed ACK'', ''AWDL''] @
       (if blueutil h then [''Bluetooth''] else []) @ [''All Optimizations''] \<and>
     host (snd (main h [] fd)) =
       h\<lparr>delayed_ack := parse_sysctl (strip (''net.inet.tcp.delayed_ack: '' @ delayed_ack h)),
          doautorcvbuf := parse_sysctl (strip (''net.inet.tcp.doautorcvbuf: '' @ doautorcvbuf h))\<rparr> \<and>
     (CHR '':'' \<notin> set (delayed_ack h) \<and> delayed_ack h \<noteq> [] \<and>
      \<not> is_space (hd (delayed_ack h)) \<and> \<not> is_space (last (delayed_ack h)) \<and>
      CHR '':'' \<notin> set (doautorcvbuf h) \<and> doautorcvbuf h \<noteq> [] \<and>
      \<not> is_space (hd (doautorcvbuf h)) \<and> \<not> is_space (last (doautorcvbuf h)) \<longrightarrow>
      host (snd (main h [] fd)) = h)"
  proof (cases "blueutil h")
    case True
    note b = battery_blueutil [OF s True, of fd]
    from b(4) have "host (snd (main h [] fd)) = h"
      if "CHR '':'' \<notin> set (delayed_ack h) \<and> delayed_ack h \<noteq> [] \<and>
      \<not> is_space (hd (delayed_ack h)) \<and> \<not> is_space (last (delayed_ack h)) \<and>
      CHR '':'' \<notin> set (doautorcvbuf h) \<and> doautorcvbuf h \<noteq> [] \<and>
      \<not> is_space (hd (doautorcvbuf h)) \<and> \<not> is_space (last (doautorcvbuf h))"
      using that
        parse_sysctl_value [where v = "delayed_ack h" and k = "''net.inet.tcp.delayed_ack''"]
        parse_sysctl_value [where v = "doautorcvbuf h" and k = "''net.inet.tcp.doautorcvbuf''"]
      by (simp add: is_space_def)
    with b True show ?thesis by simp
  next
    case False
    note b = battery_no_blueutil [OF s False, of fd]
    from b(4) have "host (snd (main h [] fd)) = h"
      if "CHR '':'' \<notin> set (delayed_ack h) \<and> delayed_ack h \<noteq> [] \<and>
      \<not> is_space (hd (delayed_ack h)) \<and> \<not> is_space (last (delayed_ack h)) \<and>
      CHR '':'' \<notin> set (doautorcvbuf h) \<and> doautorcvbuf h \<noteq> [] \<and>
      \<not> is_space (hd (doautorcvbuf h)) \<and> \<not> is_space (last (doautorcvbuf h))"
      using that
        parse_sysctl_value [where v = "delayed_ack h" and k = "''net.inet.tcp.delayed_ack''"]
        parse_sysctl_value [where v = "doautorcvbuf h" and k = "''net.inet.tcp.doautorcvbuf''"]
      by (simp add: is_space_def)
    with b False show ?thesis by simp
  qed
qed

theorem battery_fixed_order_witness:
  "sudo_ok \<lparr>delayed_ack = ''3'', doautorcvbuf = ''1'', awdl_active = True, bt_power = True,
            sudo_ok = True, blueutil = False\<rparr> \<and>
   fst (main \<lparr>delayed_ack = ''3'', doautorcvbuf = ''1'', awdl_active = True, bt_power = True,
            sudo_ok = True, blueutil = False\<rparr> [] []) = None \<and>
   map setting_name (results (snd (main \<lparr>delayed_ack = ''3'', doautorcvbuf = ''1'',
            awdl_active = True, bt_power = True, sudo_ok = True, blueutil = False\<rparr> [] [])))
     = [''Baseline'', ''TCP Delayed ACK'', ''AWDL'', ''All Optimizations''] \<and>
   host (snd (main \<lparr>delayed_ack = ''3'', doautorcvbuf = ''1'', awdl_active = True,
            bt_power = True, sudo_ok = True, blueutil = False\<rparr> [] []))
     = \<lparr>delayed_ack = ''3'', doautorcvbuf = ''1'', awdl_active = True, bt_power = True,
        sudo_ok = True, blueutil = False\<rparr>"
proof -
  define h where "h = \<lparr>delayed_ack = ''3'', doautorcvbuf = ''1'', awdl_active = True,
            bt_power = True, sudo_ok = True, blueutil = False\<rparr>"
  have s: "sudo_ok h" by (simp add: h_def)
  have nb: "\<not> blueutil h" by (simp add: h_def)
  have wf: "CHR '':'' \<notin> set (delayed_ack h) \<and> delayed_ack h \<noteq> [] \<and>
      \<not> is_space (hd (delayed_ack h)) \<and> \<not> is_space (last (delayed_ack h)) \<and>
      CHR '':'' \<notin> set (doautorcvbuf h) \<and> doautorcvbuf h \<noteq> [] \<and>
      \<not> is_space (hd (doautorcvbuf h)) \<and> \<not> is_space (last (doautorcvbuf h))"
    by (simp add: h_def is_space_def)
  note t = battery_fixed_order [of h "[]"]
  from t s have f: "fst (main h [] []) = None" by blast
  from t s nb have l: "map setting_name (results (snd (main h [] [])))
     = [''Baseline'', ''TCP Delayed ACK'', ''AWDL'', ''All Optimizations'']"
    by simp
  from t s wf have r: "host (snd (main h [] [])) = h" by blast
  from s f l r have "sudo_ok h \<and> fst (main h [] []) = None \<and>
    map setting_name (results (snd (main h [] [])))
     = [''Baseline'', ''TCP Delayed ACK'', ''AWDL'', ''All Optimizations''] \<and>
    host (snd (main h [] [])) = h"
    by blast
  then show ?thesis unfolding h_def .
qed

text \<open>The restore is entered on every way out of the experiments, whatever arrives and
  whenever: the trace only grows, and the final block of \<^verbatim>\<open>run_all_tests\<close> and the
  interrupt handler of \<^verbatim>\<open>main\<close> both start with it.\<close>

lemma block_keeps_trace:
  "(\<And>s w. s \<in> set ss \<Longrightarrow> trace (snd (s w)) = trace w) \<Longrightarrow>
   trace (snd (block ss w)) = trace w"
proof (induction ss arbitrary: w)
  case Nil
  show ?case by simp
next
  case (Cons s ss)
  have s: "trace (snd (s w)) = trace w" using Cons.prems by simp
  show ?case
  proof (cases "s w")
    case (Pair r w')
    with s have w': "trace w' = trace w" by simp
    show ?thesis
    proof (cases r)
      case None
      have "trace (snd (block ss w')) = trace w'"
        using Cons.IH Cons.prems by simp
      with Pair None w' show ?thesis by simp
    next
      case (Some e)
      with Pair w' show ?thesis by simp
    qed
  qed
qed

lemma block_extends_trace:
  "(\<And>s w. s \<in> set ss \<Longrightarrow> \<exists>ys. trace (snd (s w)) = trace w @ ys) \<Longrightarrow>
   \<exists>ys. trace (snd (block ss w)) = trace w @ ys"
proof (induction ss arbitrary: w)
  case Nil
  show ?case by simp
next
  case (Cons s ss)
  from Cons.prems obtain ys where s: "trace (snd (s w)) = trace w @ ys" by force
  show ?case
  proof (cases "s w")
    case (Pair r w')
    with s have w': "trace w' = trace w @ ys" by simp
    show ?thesis
    proof (cases r)
      case None
      have "\<exists>zs. trace (snd (block ss w')) = trace w' @ zs"
        using Cons.IH Cons.prems by simp
      then obtain zs where "trace (snd (block ss w')) = trace w' @ zs" by blast
      with Pair None w' show ?thesis by simp
    next
      case (Some e)
      with Pair w' show ?thesis by simp
    qed
  qed
qed

lemma blocking_trace: "trace (snd (blocking w)) = trace w"
  by (simp add: blocking_def)

lemma run_cmd_trace: "trace (snd (run_cmd c w)) = trace w"
  by (simp add: run_cmd_def blocking_def split: option.split exn.split prod.split)

lemma do_cmd_trace: "trace (snd (do_cmd c w)) = trace w"
proof (cases "run_cmd c w")
  case (Pair r w')
  with run_cmd_trace [of c w] show ?thesis
    by (cases r) (simp_all add: do_cmd_def)
qed

lemma restore_setting_trace: "trace (snd (restore_setting i w)) = trace w"
  by (simp add: restore_setting_def Let_def do_cmd_trace split: option.split)

lemma restore_awdl_trace: "trace (snd (restore_awdl w)) = trace w"
  by (simp add: restore_awdl_def do_cmd_trace)

lemma restore_bluetooth_trace: "trace (snd (restore_bluetooth w)) = trace w"
  by (simp add: restore_bluetooth_def do_cmd_trace)

lemma restore_entered: "trace (snd (restore_original_states w)) = trace w @ [EvRestore]"
proof -
  let ?rest = "map restore_setting [0..<length (settings w)] @ [restore_awdl, restore_bluetooth]"
  have "trace (snd (block ?rest (w\<lparr>trace := trace w @ [EvRestore]\<rparr>)))
        = trace (w\<lparr>trace := trace w @ [EvRestore]\<rparr>)"
    by (rule block_keeps_trace)
       (auto simp: restore_setting_trace restore_awdl_trace restore_bluetooth_trace)
  then show ?thesis
    by (simp add: restore_original_states_def emit_def)
qed

lemma apply_setting_extends: "\<exists>ys. trace (snd (apply_setting nm enable w)) = trace w @ ys"
proof -
  have "trace (snd (block [do_cmd (BlueutilSetPower (if enable then ''1'' else ''0'')),
                                  sleep] v)) = trace v" for v
    by (rule block_keeps_trace) (auto simp: do_cmd_trace sleep_def blocking_trace)
  then have bt: "trace (snd ((\<lambda>w. if has_blueutil w
                      then block [do_cmd (BlueutilSetPower (if enable then ''1'' else ''0'')),
                                  sleep] w
                      else (None, w)) v)) = trace v" for v
    by (simp del: block.simps)
  show ?thesis
    unfolding apply_setting_def
    by (rule block_extends_trace) (auto simp: emit_def do_cmd_trace bt simp del: block.simps(2))
qed

lemma append_ping_test_extends:
  "\<exists>ys. trace (snd (append_ping_test label sv w)) = trace w @ ys"
  by (simp add: append_ping_test_def blocking_def split: option.split sum.split)

lemma sleep_extends: "\<exists>ys. trace (snd (sleep w)) = trace w @ ys"
  by (simp add: sleep_def blocking_trace)

lemma when_blueutil_extends:
  "(\<And>w. \<exists>ys. trace (snd (s w)) = trace w @ ys) \<Longrightarrow>
   \<exists>ys. trace (snd (when_blueutil s w)) = trace w @ ys"
  by (simp add: when_blueutil_def)

lemma write_report_extends: "\<exists>ys. trace (snd (write_report w)) = trace w @ ys"
  by (simp add: write_report_def split: sum.split)

lemma restore_invoked_after_save:
  assumes "fst (save_original_states w) = None"
  shows "\<exists>ys zs. trace (snd (run_all_tests w))
           = trace (snd (save_original_states w)) @ ys @ [EvRestore] @ zs"
proof -
  let ?body = "block
             [append_ping_test ''Baseline'' ''current'',
              apply_setting ''TCP Delayed ACK'' False,
              append_ping_test ''TCP Delayed ACK'' ''disabled'',
              apply_setting ''TCP Delayed ACK'' True,
              apply_setting ''AWDL'' False,
              sleep,
              append_ping_test ''AWDL'' ''disabled'',
              apply_setting ''AWDL'' True,
              when_blueutil
                (block
                   [apply_setting ''Bluetooth'' False,
                    append_ping_test ''Bluetooth'' ''disabled'',
                    apply_setting ''Bluetooth'' True]),
              apply_setting ''TCP Delayed ACK'' False,
              apply_setting ''AWDL'' False,
              when_blueutil (apply_setting ''Bluetooth'' False),
              sleep,
              append_ping_test ''All Optimizations'' ''enabled'']"
  let ?w1 = "snd (save_original_states w)"
  let ?w2 = "snd (?body ?w1)"
  let ?tf = "try_finally ?body restore_original_states"
  have inner: "\<exists>ys. trace (snd (block
                   [apply_setting ''Bluetooth'' False,
                    append_ping_test ''Bluetooth'' ''disabled'',
                    apply_setting ''Bluetooth'' True] v)) = trace v @ ys" for v
    by (rule block_extends_trace)
       (auto simp: apply_setting_extends append_ping_test_extends simp del: block.simps)
  have "\<exists>ys. trace ?w2 = trace ?w1 @ ys"
    by (rule block_extends_trace)
       (auto simp: apply_setting_extends append_ping_test_extends sleep_extends
          intro!: when_blueutil_extends inner simp del: block.simps)
  then obtain ys where ys: "trace ?w2 = trace ?w1 @ ys" by blast
  have tf: "trace (snd (?tf ?w1)) = trace ?w1 @ ys @ [EvRestore]"
    by (simp add: try_finally_alt restore_entered ys del: block.simps)
  have run: "run_all_tests w = block [?tf, write_report] ?w1"
    using assms unfolding run_all_tests_def by (simp add: block_Cons_None del: block.simps)
  obtain zs where "trace (snd (block [?tf, write_report] ?w1)) = trace (snd (?tf ?w1)) @ zs"
  proof (cases "?tf ?w1")
    case (Pair r w3)
    show ?thesis
    proof (cases r)
      case None
      from write_report_extends [of w3] obtain zs where
        "trace (snd (write_report w3)) = trace w3 @ zs" by blast
      with Pair None that [of zs] show ?thesis
        by (cases "write_report w3") (auto split: option.splits)
    next
      case (Some e)
      with Pair that [of "[]"] show ?thesis by simp
    qed
  qed
  with tf run show ?thesis by auto
qed

lemma interrupt_handler_restores:
  assumes "fst (run_all_tests w) = Some KeyboardInterrupt"
  shows "trace (snd (try_except_KeyboardInterrupt run_all_tests
                  (block [restore_original_states, raise (SystemExit 1)]) w))
         = trace (snd (run_all_tests w)) @ [EvRestore]"
proof (cases "run_all_tests w")
  case (Pair r w')
  with assms have r: "r = Some KeyboardInterrupt" by simp
  have "trace (snd (block [restore_original_states, raise (SystemExit 1)] w'))
        = trace w' @ [EvRestore]"
    using restore_entered [of w']
    by (cases "restore_original_states w'") (auto simp: raise_def split: option.splits)
  with Pair r show ?thesis
    by (simp add: try_except_KeyboardInterrupt_def)
qed

text \<open>
  Claim C1 asks that the restore is invoked on every way out of a run, so that the host is
  never left perturbed. The restore is indeed entered on every such path
  (\<open>restore_invoked_after_save\<close>, \<open>interrupt_handler_restores\<close>), but it brings the AWDL
  interface up only when the captured state is on and never takes it down. On a host
  whose AWDL interface was inactive, with blueutil installed, an interrupt during the
  Bluetooth experiment (the blocking call number 16) ends the run with status 1 after two
  restores, and the interface, brought up by the reset that follows the AWDL experiment,
  stays active.
\<close>

theorem interrupted_run_leaves_awdl_up:
  "fst (main \<lparr>delayed_ack = ''3'', doautorcvbuf = ''1'', awdl_active = False, bt_power = True,
              sudo_ok = True, blueutil = True\<rparr> [(16, Interrupt)] [])
     = Some (SystemExit 1) \<and>
   dict_get (original_states (snd
     (main \<lparr>delayed_ack = ''3'', doautorcvbuf = ''1'', awdl_active = False, bt_power = True,
            sudo_ok = True, blueutil = True\<rparr> [(16, Interrupt)] []))) ''AWDL'' = Some ''off'' \<and>
   trace (snd
     (main \<lparr>delayed_ack = ''3'', doautorcvbuf = ''1'', awdl_active = False, bt_power = True,
            sudo_ok = True, blueutil = True\<rparr> [(16, Interrupt)] [])) =
     [EvSave, EvSaved,
      EvPing ''Baseline'' ''current''
        \<lparr>delayed_ack = ''3'', doautorcvbuf = ''1'', awdl_active = False, bt_power = True,
         sudo_ok = True, blueutil = True\<rparr>,
      EvApply ''TCP Delayed ACK'' False,
      EvPing ''TCP Delayed ACK'' ''disabled''
        \<lparr>delayed_ack = ''0'', doautorcvbuf = ''1'', awdl_active = False, bt_power = True,
         sudo_ok = True, blueutil = True\<rparr>,
      EvApply ''TCP Delayed ACK'' True,
      EvApply ''AWDL'' False,
      EvPing ''AWDL'' ''disabled''
        \<lparr>delayed_ack = ''3'', doautorcvbuf = ''1'', awdl_active = False, bt_power = True,
         sudo_ok = True, blueutil = True\<rparr>,
      EvApply ''AWDL'' True,
      EvApply ''Bluetooth'' False,
      EvPing ''Bluetooth'' ''disabled''
        \<lparr>delayed_ack = ''3'', doautorcvbuf = ''1'', awdl_active = True, bt_power = False,
         sudo_ok = True, blueutil = True\<rparr>,
      EvRestore, EvRestore] \<and>
   host (snd
     (main \<lparr>delayed_ack = ''3'', doautorcvbuf = ''1'', awdl_active = False, bt_power = True,
            sudo_ok = True, blueutil = True\<rparr> [(16, Interrupt)] [])) =
     \<lparr>delayed_ack = ''3'', doautorcvbuf = ''1'', awdl_active = True, bt_power = True,
      sudo_ok = True, blueutil = True\<rparr>"
  by code_simp

end
